theory Spec2Isabelle
  imports Main
begin

section \<open>JavaScript numbers and arrays\<close>

text \<open>
  The program's \<^verbatim>\<open>number\<close> values are modelled on the integer-valued numbers together
  with \<^verbatim>\<open>NaN\<close> and the two infinities. Fractional values are outside the model: the
  numbers of the supervisor are counts of lines, capacities, process ids and times in
  milliseconds.
\<close>

datatype js_number = Num int | NaN | PosInfinity | NegInfinity

text \<open>The comparison \<^verbatim>\<open>a < b\<close>: false as soon as one side is \<^verbatim>\<open>NaN\<close>.\<close>

fun js_less :: "js_number \<Rightarrow> js_number \<Rightarrow> bool" where
  "js_less NaN b = False"
| "js_less a NaN = False"
| "js_less (Num a) (Num b) = (a < b)"
| "js_less (Num a) PosInfinity = True"
| "js_less (Num a) NegInfinity = False"
| "js_less PosInfinity b = False"
| "js_less NegInfinity NegInfinity = False"
| "js_less NegInfinity b = True"

text \<open>\<^verbatim>\<open>Math.min\<close> and \<^verbatim>\<open>Math.max\<close> of two arguments, and the subtraction \<^verbatim>\<open>a - b\<close>.\<close>

fun Math_min :: "js_number \<Rightarrow> js_number \<Rightarrow> js_number" where
  "Math_min NaN b = NaN"
| "Math_min a NaN = NaN"
| "Math_min NegInfinity b = NegInfinity"
| "Math_min a NegInfinity = NegInfinity"
| "Math_min PosInfinity b = b"
| "Math_min a PosInfinity = a"
| "Math_min (Num a) (Num b) = Num (min a b)"

fun Math_max :: "js_number \<Rightarrow> js_number \<Rightarrow> js_number" where
  "Math_max NaN b = NaN"
| "Math_max a NaN = NaN"
| "Math_max PosInfinity b = PosInfinity"
| "Math_max a PosInfinity = PosInfinity"
| "Math_max NegInfinity b = b"
| "Math_max a NegInfinity = a"
| "Math_max (Num a) (Num b) = Num (max a b)"

fun js_minus :: "js_number \<Rightarrow> js_number \<Rightarrow> js_number" where
  "js_minus NaN b = NaN"
| "js_minus a NaN = NaN"
| "js_minus (Num a) (Num b) = Num (a - b)"
| "js_minus (Num a) PosInfinity = NegInfinity"
| "js_minus (Num a) NegInfinity = PosInfinity"
| "js_minus PosInfinity PosInfinity = NaN"
| "js_minus PosInfinity b = PosInfinity"
| "js_minus NegInfinity NegInfinity = NaN"
| "js_minus NegInfinity b = NegInfinity"

text \<open>
  An array is a list of slots; a slot that was never written (a hole of
  \<^verbatim>\<open>new Array(n)\<close>) is \<open>None\<close>. Writing \<^verbatim>\<open>a[i] = v\<close> past the end extends the
  array with holes, as JavaScript does.
\<close>

definition array_set :: "'a option list \<Rightarrow> nat \<Rightarrow> 'a \<Rightarrow> 'a option list" where
  "array_set a i v =
     (if i < length a then a[i := Some v]
      else a @ replicate (i - length a) None @ [Some v])"

text \<open>
  \<^verbatim>\<open>a.slice(start)\<close> for a number \<open>start\<close>: \<^verbatim>\<open>NaN\<close> and \<open>-Infinity\<close> start at 0,
  \<open>+Infinity\<close> at the end, a negative index counts from the end.
\<close>

fun slice_from :: "js_number \<Rightarrow> 'a list \<Rightarrow> 'a list" where
  "slice_from NaN a = a"
| "slice_from NegInfinity a = a"
| "slice_from PosInfinity a = []"
| "slice_from (Num n) a =
     (if n < 0 then drop (nat (max (int (length a) + n) 0)) a
      else drop (nat (min n (int (length a)))) a)"

section \<open>Errors\<close>

text \<open>
  \<open>HttpError\<close> is the program's own error class (status and message); \<open>RangeError\<close> is
  the one \<^verbatim>\<open>new Array\<close> throws on an invalid length; \<open>HostFailure\<close> stands for an
  exception of a host primitive (file system, process spawn).
\<close>

datatype error = HttpError int string | RangeError | HostFailure string

section \<open>RingBuffer\<close>

record RingBuffer =
  capacity :: nat
  buffer :: "string option list"
  index :: nat
  filled :: bool

text \<open>
  The constructor clamps the requested capacity to \<open>[10, 10000]\<close> and allocates the
  array; \<^verbatim>\<open>new Array(NaN)\<close> throws.
\<close>

definition new_RingBuffer :: "js_number \<Rightarrow> error + RingBuffer" where
  "new_RingBuffer cap =
     (case Math_max (Num 10) (Math_min cap (Num 10000)) of
        Num n \<Rightarrow>
          (if 0 \<le> n \<and> n < 2 ^ 32
           then Inr \<lparr> capacity = nat n, buffer = replicate (nat n) None,
                      index = 0, filled = False \<rparr>
           else Inl RangeError)
      | _ \<Rightarrow> Inl RangeError)"

definition push :: "string \<Rightarrow> RingBuffer \<Rightarrow> RingBuffer" where
  "push line rb =
     (let b = array_set (buffer rb) (index rb) line;
          i = (index rb + 1) mod capacity rb
      in rb \<lparr> buffer := b, index := i, filled := (if i = 0 then True else filled rb) \<rparr>)"

text \<open>\<open>toArray limit\<close>: \<open>None\<close> is the omitted (undefined) argument.\<close>

definition toArray :: "RingBuffer \<Rightarrow> js_number option \<Rightarrow> string option list" where
  "toArray rb limit =
     (let data = (if filled rb
                  then drop (index rb) (buffer rb) @ take (index rb) (buffer rb)
                  else take (index rb) (buffer rb))
      in case limit of
           None \<Rightarrow> data
         | Some l \<Rightarrow>
             if js_less (Num 0) l
             then slice_from (Math_max (Num 0) (js_minus (Num (int (length data))) l)) data
             else data)"

text \<open>A sequence of pushes, oldest first.\<close>

definition push_all :: "string list \<Rightarrow> RingBuffer \<Rightarrow> RingBuffer" where
  "push_all ls rb = foldl (\<lambda>b l. push l b) rb ls"

text \<open>The shape every buffer built by the constructor and \<open>push\<close> has.\<close>

definition rb_shape :: "RingBuffer \<Rightarrow> bool" where
  "rb_shape rb \<longleftrightarrow>
     0 < capacity rb \<and> length (buffer rb) = capacity rb \<and> index rb < capacity rb"

subsection \<open>Retained lines\<close>

lemma new_RingBuffer_shape:
  assumes "new_RingBuffer c = Inr rb"
  shows "rb_shape rb" and "\<not> filled rb" and "index rb = 0"
    and "10 \<le> capacity rb" and "capacity rb \<le> 10000"
  using assms
  by (auto simp: new_RingBuffer_def rb_shape_def
      split: js_number.splits if_splits elim!: Math_max.elims Math_min.elims)

lemma new_RingBuffer_capacity:
  "new_RingBuffer (Num n) = Inr rb \<Longrightarrow> int (capacity rb) = max 10 (min n 10000)"
  by (auto simp: new_RingBuffer_def split: if_splits)

lemma push_shape: "rb_shape rb \<Longrightarrow> rb_shape (push l rb)"
  by (simp add: rb_shape_def push_def array_set_def Let_def)

lemma push_capacity: "capacity (push l rb) = capacity rb"
  by (simp add: push_def Let_def)

lemma toArray_push:
  assumes sh: "rb_shape rb"
    and len: "length (toArray rb None) = (if filled rb then capacity rb else index rb)"
  shows "toArray (push l rb) None =
           (if length (toArray rb None) < capacity rb then toArray rb None
            else tl (toArray rb None)) @ [Some l]"
proof -
  let ?b = "buffer rb" and ?i = "index rb" and ?c = "capacity rb"
  from sh have c: "0 < ?c" and lb: "length ?b = ?c" and i: "?i < ?c"
    by (simp_all add: rb_shape_def)
  have upd: "array_set ?b ?i l = take ?i ?b @ Some l # drop (Suc ?i) ?b"
    using i lb by (simp add: array_set_def upd_conv_take_nth_drop)
  show ?thesis
  proof (cases "Suc ?i = ?c")
    case wrap: True
    then have m: "(?i + 1) mod ?c = 0" by simp
    have full: "array_set ?b ?i l = take ?i ?b @ [Some l]"
      using upd wrap lb by simp
    have d1: "drop ?i ?b = [?b ! ?i]"
      using wrap lb i by (metis Cons_nth_drop_Suc drop_all le_refl)
    show ?thesis
      using m full d1 i wrap len lb
      by (simp add: toArray_def push_def Let_def split: if_splits)
  next
    case nowrap: False
    with i have lt: "Suc ?i < ?c" by simp
    then have m: "(?i + 1) mod ?c = Suc ?i" by simp
    have t: "take (Suc ?i) (array_set ?b ?i l) = take ?i ?b @ [Some l]"
      using upd i lb by (simp add: take_Suc_conv_app_nth min_def)
    have d: "drop (Suc ?i) (array_set ?b ?i l) = drop (Suc ?i) ?b"
      using upd i lb by (simp add: min_def)
    have dn: "drop ?i ?b = ?b ! ?i # drop (Suc ?i) ?b"
      using i lb by (simp add: Cons_nth_drop_Suc)
    show ?thesis
      using m t d dn i len lb
      by (simp add: toArray_def push_def Let_def split: if_splits)
  qed
qed

lemma push_length_filled:
  assumes "rb_shape rb"
    and "length (toArray rb None) = (if filled rb then capacity rb else index rb)"
  shows "length (toArray (push l rb) None) =
           (if filled (push l rb) then capacity (push l rb) else index (push l rb))"
proof -
  from assms(1) have "0 < capacity rb" "length (buffer rb) = capacity rb"
    "index rb < capacity rb"
    by (simp_all add: rb_shape_def)
  then show ?thesis
    by (auto simp: toArray_def push_def Let_def array_set_def mod_Suc)
qed

lemma push_all_snoc: "push_all (ls @ [l]) rb = push l (push_all ls rb)"
  by (simp add: push_all_def)

lemma push_all_invariants:
  assumes "rb_shape rb" and "\<not> filled rb" and "index rb = 0"
  shows "rb_shape (push_all ls rb)
       \<and> capacity (push_all ls rb) = capacity rb
       \<and> length (toArray (push_all ls rb) None) =
           (if filled (push_all ls rb) then capacity rb else index (push_all ls rb))
       \<and> toArray (push_all ls rb) None = map Some (drop (length ls - capacity rb) ls)"
proof (induction ls rule: rev_induct)
  case Nil
  with assms show ?case by (simp add: push_all_def toArray_def)
next
  case (snoc l ls)
  let ?p = "push_all ls rb" and ?c = "capacity rb"
  from snoc.IH have sh: "rb_shape ?p" and cap: "capacity ?p = ?c"
    and len0: "length (toArray ?p None) = (if filled ?p then ?c else index ?p)"
    and arr: "toArray ?p None = map Some (drop (length ls - ?c) ls)"
    by blast+
  from len0 cap
  have len: "length (toArray ?p None) = (if filled ?p then capacity ?p else index ?p)"
    by simp
  from assms(1) have c: "0 < ?c" by (simp add: rb_shape_def)
  have step: "toArray (push l ?p) None =
      (if length (toArray ?p None) < ?c then toArray ?p None else tl (toArray ?p None))
        @ [Some l]"
    using toArray_push [OF sh len] cap by simp
  have "toArray (push l ?p) None = map Some (drop (length (ls @ [l]) - ?c) (ls @ [l]))"
  proof (cases "length ls < ?c")
    case True
    then show ?thesis using step arr by simp
  next
    case False
    then have "tl (drop (length ls - ?c) ls) = drop (Suc (length ls) - ?c) ls"
      using c by (simp add: drop_Suc [symmetric] tl_drop Suc_diff_le)
    then show ?thesis using step arr False c by (simp add: map_tl [symmetric] Suc_diff_le)
  qed
  moreover have "length (toArray (push l ?p) None) =
      (if filled (push l ?p) then capacity (push l ?p) else index (push l ?p))"
    by (rule push_length_filled [OF sh len])
  ultimately show ?case
    using push_shape [OF sh] cap by (simp add: push_all_snoc push_capacity)
qed

text \<open>The decimal numeral of a natural number, to number lines.\<close>

fun decimal :: "nat \<Rightarrow> string" where
  "decimal n =
     (if n < 10 then [char_of (48 + n)]
      else decimal (n div 10) @ [char_of (48 + n mod 10)])"

declare decimal.simps [simp del]

lemma decimal_examples:
  "decimal 1 = ''1''" "decimal 16 = ''16''" "decimal 25 = ''25''"
  by code_simp+

text \<open>
  Claim C3. For every capacity and every finite sequence of pushes on a fresh buffer,
  \<open>toArray\<close> without a limit returns at most \<open>capacity\<close> entries (the capacity of the
  buffer: the requested number clamped to 10..10000), they are the most recently pushed
  lines in the order they were pushed, and the last one is the line pushed last. With
  capacity 10 and the lines 1..25 pushed, the result is the lines 16..25 in order.
\<close>

theorem toArray_most_recent_in_order:
  assumes "new_RingBuffer c = Inr rb"
  shows "10 \<le> capacity rb \<and> capacity rb \<le> 10000
       \<and> (\<forall>n. c = Num n \<longrightarrow> int (capacity rb) = max 10 (min n 10000))
       \<and> length (toArray (push_all ls rb) None) \<le> capacity rb
       \<and> toArray (push_all ls rb) None = map Some (drop (length ls - capacity rb) ls)
       \<and> (ls \<noteq> [] \<longrightarrow> last (toArray (push_all ls rb) None) = Some (last ls))
       \<and> (\<exists>rb10. new_RingBuffer (Num 10) = Inr rb10
            \<and> toArray (push_all (map decimal [1..<26]) rb10) None
              = map (\<lambda>n. Some (decimal n)) [16..<26])"
proof -
  have gen: "toArray (push_all xs b) None = map Some (drop (length xs - capacity b) xs)"
    if "new_RingBuffer k = Inr b" for k b xs
    using push_all_invariants [OF new_RingBuffer_shape(1-3) [OF that]] by blast
  from assms have c: "10 \<le> capacity rb" "capacity rb \<le> 10000"
    by (rule new_RingBuffer_shape)+
  have arr: "toArray (push_all ls rb) None = map Some (drop (length ls - capacity rb) ls)"
    by (rule gen [OF assms])
  have "last (toArray (push_all ls rb) None) = Some (last ls)" if "ls \<noteq> []"
  proof -
    from that c have "length ls - capacity rb < length ls" by simp
    then show ?thesis using that by (simp add: arr last_map last_drop)
  qed
  moreover have "length (toArray (push_all ls rb) None) \<le> capacity rb"
    by (simp add: arr)
  moreover have "\<exists>rb10. new_RingBuffer (Num 10) = Inr rb10
            \<and> toArray (push_all (map decimal [1..<26]) rb10) None
              = map (\<lambda>n. Some (decimal n)) [16..<26]"
  proof -
    obtain rb10 where n: "new_RingBuffer (Num 10) = Inr rb10" and cap: "capacity rb10 = 10"
      by (simp add: new_RingBuffer_def)
    show ?thesis using n by (simp add: gen [OF n] cap drop_map)
  qed
  moreover have "\<forall>n. c = Num n \<longrightarrow> int (capacity rb) = max 10 (min n 10000)"
    using assms new_RingBuffer_capacity by blast
  ultimately show ?thesis using c arr by blast
qed

theorem toArray_most_recent_in_order_witness:
  "new_RingBuffer (Num 3)
     = Inr \<lparr> capacity = 10, buffer = replicate 10 None, index = 0, filled = False \<rparr>
   \<and> toArray (push_all [''a'', ''b'']
        \<lparr> capacity = 10, buffer = replicate 10 None, index = 0, filled = False \<rparr>) None
     = [Some ''a'', Some ''b'']
   \<and> last (toArray (push_all [''a'', ''b'']
        \<lparr> capacity = 10, buffer = replicate 10 None, index = 0, filled = False \<rparr>) None)
     = Some ''b''"
proof -
  have h: "new_RingBuffer (Num 3)
     = Inr \<lparr> capacity = 10, buffer = replicate 10 None, index = 0, filled = False \<rparr>"
    by (simp add: new_RingBuffer_def)
  show ?thesis
    using h toArray_most_recent_in_order [OF h, of "[''a'', ''b'']"] by simp
qed

text \<open>
  Claim C4, as the spec states it, for every limit \<open>L\<close> up to the number of retained
  entries. It fails at \<open>L = 0\<close>: the guard \<^verbatim>\<open>limit > 0\<close> sends a zero limit to the
  unlimited branch, so a buffer holding one line returns that line, not the empty list
  of its last 0 entries.
\<close>

theorem toArray_limit_zero_counterexample:
  "new_RingBuffer (Num 10)
     = Inr \<lparr> capacity = 10, buffer = replicate 10 None, index = 0, filled = False \<rparr>
   \<and> (0::int) \<le> int (length (toArray (push ''a''
        \<lparr> capacity = 10, buffer = replicate 10 None, index = 0, filled = False \<rparr>) None))
   \<and> toArray (push ''a''
        \<lparr> capacity = 10, buffer = replicate 10 None, index = 0, filled = False \<rparr>)
        (Some (Num 0)) = [Some ''a'']
   \<and> drop (length (toArray (push ''a''
        \<lparr> capacity = 10, buffer = replicate 10 None, index = 0, filled = False \<rparr>) None)
          - nat 0)
       (toArray (push ''a''
        \<lparr> capacity = 10, buffer = replicate 10 None, index = 0, filled = False \<rparr>) None)
     = []"
  by code_simp

text \<open>
  Claim C4, amended. For every buffer state and every limit \<open>L\<close> with
  \<open>1 \<le> L \<le>\<close> the number of retained entries, \<open>toArray L\<close> is exactly the last \<open>L\<close>
  entries of \<open>toArray\<close> without a limit.
\<close>

theorem toArray_limit_last_entries:
  assumes "0 < L" and "L \<le> int (length (toArray rb None))"
  shows "toArray rb (Some (Num L))
           = drop (length (toArray rb None) - nat L) (toArray rb None)
       \<and> length (toArray rb (Some (Num L))) = nat L"
proof -
  let ?data = "toArray rb None"
  have "toArray rb (Some (Num L))
          = slice_from (Num (max 0 (int (length ?data) - L))) ?data"
    using assms(1) by (simp add: toArray_def Let_def)
  also have "\<dots> = drop (nat (int (length ?data) - L)) ?data"
    using assms by (simp add: min_def max_def)
  also have "nat (int (length ?data) - L) = length ?data - nat L"
    using assms by linarith
  finally have eq: "toArray rb (Some (Num L)) = drop (length ?data - nat L) ?data" .
  moreover have "length (drop (length ?data - nat L) ?data) = nat L"
    using assms by simp
  ultimately show ?thesis by simp
qed

theorem toArray_limit_last_entries_witness:
  "(0::int) < 2
   \<and> (2::int) \<le> int (length (toArray (push_all [''a'', ''b'', ''c'']
        \<lparr> capacity = 10, buffer = replicate 10 None, index = 0, filled = False \<rparr>) None))
   \<and> toArray (push_all [''a'', ''b'', ''c'']
        \<lparr> capacity = 10, buffer = replicate 10 None, index = 0, filled = False \<rparr>)
        (Some (Num 2)) = [Some ''b'', Some ''c'']"
proof -
  let ?rb = "push_all [''a'', ''b'', ''c'']
        \<lparr> capacity = 10, buffer = replicate 10 None, index = 0, filled = False \<rparr>"
  have d: "toArray ?rb None = [Some ''a'', Some ''b'', Some ''c'']"
    by code_simp
  have h1: "(0::int) < 2" by simp
  have h2: "(2::int) \<le> int (length (toArray ?rb None))" by (simp add: d)
  show ?thesis
    using h1 h2 toArray_limit_last_entries [OF h1 h2] by (simp add: d)
qed

text \<open>
  Claim C10. For every buffer state, a limit that is zero, negative or not a number
  gives the same result as no limit: all retained entries. For a buffer built by the
  constructor and any sequence of pushes these are the last \<open>capacity\<close> lines pushed (all
  of them when fewer were pushed), in the order they were pushed, not an empty or
  shortened array.
\<close>

theorem toArray_nonpositive_limit:
  assumes "l = NaN \<or> l = NegInfinity \<or> (\<exists>n \<le> 0. l = Num n)"
  shows "toArray rb (Some l) = toArray rb None
       \<and> (new_RingBuffer c = Inr rb0 \<longrightarrow>
            toArray (push_all ls rb0) (Some l)
              = map Some (drop (length ls - capacity rb0) ls)
            \<and> length (toArray (push_all ls rb0) (Some l)) = min (length ls) (capacity rb0))"
proof -
  have same: "toArray b (Some l) = toArray b None" for b
    using assms by (auto simp: toArray_def Let_def)
  have "toArray (push_all ls rb0) None = map Some (drop (length ls - capacity rb0) ls)"
    if "new_RingBuffer c = Inr rb0"
    using push_all_invariants [OF new_RingBuffer_shape(1-3) [OF that]] by blast
  then show ?thesis
    by (auto simp: same)
qed

theorem toArray_nonpositive_limit_witness:
  "new_RingBuffer (Num 10)
     = Inr \<lparr> capacity = 10, buffer = replicate 10 None, index = 0, filled = False \<rparr>
   \<and> toArray (push_all (map decimal [1..<13])
        \<lparr> capacity = 10, buffer = replicate 10 None, index = 0, filled = False \<rparr>)
        (Some (Num 0)) = map (\<lambda>n. Some (decimal n)) [3..<13]
   \<and> toArray (push_all (map decimal [1..<13])
        \<lparr> capacity = 10, buffer = replicate 10 None, index = 0, filled = False \<rparr>)
        (Some (Num (- 4))) = map (\<lambda>n. Some (decimal n)) [3..<13]
   \<and> toArray (push_all (map decimal [1..<13])
        \<lparr> capacity = 10, buffer = replicate 10 None, index = 0, filled = False \<rparr>)
        (Some NaN) = map (\<lambda>n. Some (decimal n)) [3..<13]
   \<and> toArray (push_all [''a'']
        \<lparr> capacity = 10, buffer = replicate 10 None, index = 0, filled = False \<rparr>)
        (Some NegInfinity) = [Some ''a'']"
proof -
  let ?rb = "\<lparr> capacity = 10, buffer = replicate 10 None, index = 0, filled = False \<rparr>"
  let ?ls = "map decimal [1..<13]"
  have n: "new_RingBuffer (Num 10) = Inr ?rb"
    by (simp add: new_RingBuffer_def)
  have z: "(Num 0 :: js_number) = NaN \<or> Num 0 = NegInfinity \<or> (\<exists>n \<le> 0. Num 0 = Num n)"
    and m: "Num (- 4) = NaN \<or> Num (- 4) = NegInfinity \<or> (\<exists>n \<le> 0. Num (- 4) = Num n)"
    and a: "NaN = NaN \<or> NaN = NegInfinity \<or> (\<exists>n \<le> 0. NaN = Num n)"
    and i: "NegInfinity = NaN \<or> NegInfinity = NegInfinity \<or> (\<exists>n \<le> 0. NegInfinity = Num n)"
    by simp_all
  have d: "map Some (drop (length ?ls - capacity ?rb) ?ls) = map (\<lambda>n. Some (decimal n)) [3..<13]"
    by code_simp
  have e: "map Some (drop (length [''a''] - capacity ?rb) [''a'']) = [Some ''a'']"
    by simp
  from n toArray_nonpositive_limit [OF z, of ?rb "Num 10" ?rb ?ls]
  have "toArray (push_all ?ls ?rb) (Some (Num 0)) = map (\<lambda>n. Some (decimal n)) [3..<13]"
    unfolding d by blast
  moreover from n toArray_nonpositive_limit [OF m, of ?rb "Num 10" ?rb ?ls]
  have "toArray (push_all ?ls ?rb) (Some (Num (- 4))) = map (\<lambda>n. Some (decimal n)) [3..<13]"
    unfolding d by blast
  moreover from n toArray_nonpositive_limit [OF a, of ?rb "Num 10" ?rb ?ls]
  have "toArray (push_all ?ls ?rb) (Some NaN) = map (\<lambda>n. Some (decimal n)) [3..<13]"
    unfolding d by blast
  moreover from n toArray_nonpositive_limit [OF i, of ?rb "Num 10" ?rb "[''a'']"]
  have "toArray (push_all [''a''] ?rb) (Some NegInfinity) = [Some ''a'']"
    unfolding e by blast
  ultimately show ?thesis
    using n by blast
qed

section \<open>Line splitter\<close>

text \<open>
  A JavaScript string is held as the bytes of its UTF-8 encoding. A line feed and a
  carriage return are one byte each and are part of no other character, so searching for
  a line feed, cutting there and removing a carriage return at the end act on the bytes
  as they do on the string. \<open>indexOf\<close> is \<^verbatim>\<open>String.prototype.indexOf\<close> for a single
  character, \<open>None\<close> standing for \<open>-1\<close>; \<open>strip_cr\<close> is \<^verbatim>\<open>replace(/\r$/, "")\<close>, which
  removes one carriage return at the very end of the string.
\<close>

definition LF :: char where
  "LF = CHR 0x0A"

definition CR :: char where
  "CR = CHR 0x0D"

fun indexOf :: "'a list \<Rightarrow> 'a \<Rightarrow> nat option" where
  "indexOf [] c = None"
| "indexOf (x # xs) c = (if x = c then Some 0 else map_option Suc (indexOf xs c))"

definition strip_cr :: "string \<Rightarrow> string" where
  "strip_cr s = (if s \<noteq> [] \<and> last s = CR then butlast s else s)"

lemma indexOf_Some_less: "indexOf xs c = Some i \<Longrightarrow> i < length xs"
  by (induction xs arbitrary: i) (auto split: if_splits)

subsection \<open>The decoder\<close>

text \<open>
  \<^verbatim>\<open>new TextDecoder()\<close> decodes UTF-8, and \<^verbatim>\<open>decode(chunk, { stream: true })\<close> runs the
  bytes of the chunk through the UTF-8 decoder of the Encoding Standard, whose state
  lasts from one call to the next: the bytes of a sequence that is not yet complete
  (\<open>pending\<close>, with the number of bytes still \<open>needed\<close> and the bounds of the next
  byte) and whether the first character has been seen, a byte order mark in that place
  being dropped. A byte that cannot continue or start a sequence gives U+FFFD.
\<close>

record TextDecoder =
  BOM_seen :: bool
  needed :: nat
  pending :: string
  lower :: nat
  upper :: nat

definition new_TextDecoder :: TextDecoder where
  "new_TextDecoder =
     \<lparr> BOM_seen = False, needed = 0, pending = [], lower = 0x80, upper = 0xBF \<rparr>"

definition replacement :: string where
  "replacement = [CHR 0xEF, CHR 0xBF, CHR 0xBD]"

definition byte_order_mark :: string where
  "byte_order_mark = [CHR 0xEF, CHR 0xBB, CHR 0xBF]"

text \<open>A byte met when no sequence is open; the result lists the characters given out.\<close>

definition utf8_lead :: "TextDecoder \<Rightarrow> char \<Rightarrow> string list \<times> TextDecoder" where
  "utf8_lead d b =
     (let v = (of_char b :: nat)
      in if v \<le> 0x7F then ([[b]], d)
         else if 0xC2 \<le> v \<and> v \<le> 0xDF
         then ([], d \<lparr> needed := 1, pending := [b] \<rparr>)
         else if 0xE0 \<le> v \<and> v \<le> 0xEF
         then ([], d \<lparr> needed := 2, pending := [b],
                        lower := (if v = 0xE0 then 0xA0 else 0x80),
                        upper := (if v = 0xED then 0x9F else 0xBF) \<rparr>)
         else if 0xF0 \<le> v \<and> v \<le> 0xF4
         then ([], d \<lparr> needed := 3, pending := [b],
                        lower := (if v = 0xF0 then 0x90 else 0x80),
                        upper := (if v = 0xF4 then 0x8F else 0xBF) \<rparr>)
         else ([replacement], d))"

text \<open>
  Any byte: inside a sequence, a byte out of bounds ends the sequence with U+FFFD and
  is then read again as a first byte.
\<close>

definition utf8_handler :: "TextDecoder \<Rightarrow> char \<Rightarrow> string list \<times> TextDecoder" where
  "utf8_handler d b =
     (if needed d = 0 then utf8_lead d b
      else if (of_char b :: nat) < lower d \<or> upper d < (of_char b :: nat)
      then (case utf8_lead (d \<lparr> needed := 0, pending := [], lower := 0x80, upper := 0xBF \<rparr>) b of
              (cs, d') \<Rightarrow> (replacement # cs, d'))
      else (let p = pending d @ [b]
            in if length p = needed d + 1
               then ([p], d \<lparr> needed := 0, pending := [], lower := 0x80, upper := 0xBF \<rparr>)
               else ([], d \<lparr> pending := p, lower := 0x80, upper := 0xBF \<rparr>)))"

text \<open>The characters given out become text; a byte order mark as the first is dropped.\<close>

fun serialize :: "bool \<Rightarrow> string list \<Rightarrow> string \<times> bool" where
  "serialize seen [] = ([], seen)"
| "serialize seen (c # cs) =
     (if \<not> seen \<and> c = byte_order_mark then serialize True cs
      else (case serialize True cs of (t, seen') \<Rightarrow> (c @ t, seen')))"

definition TextDecoder_byte :: "TextDecoder \<Rightarrow> char \<Rightarrow> string \<times> TextDecoder" where
  "TextDecoder_byte d b =
     (case utf8_handler d b of
        (cs, d') \<Rightarrow>
          (case serialize (BOM_seen d') cs of
             (t, seen) \<Rightarrow> (t, d' \<lparr> BOM_seen := seen \<rparr>)))"

text \<open>\<^verbatim>\<open>decoder.decode(chunk, { stream: true })\<close>: the text, and the decoder afterwards.\<close>

fun decode :: "TextDecoder \<Rightarrow> string \<Rightarrow> string \<times> TextDecoder" where
  "decode d [] = ([], d)"
| "decode d (b # bs) =
     (case TextDecoder_byte d b of
        (t, d') \<Rightarrow> (case decode d' bs of (ts, d'') \<Rightarrow> (t @ ts, d'')))"

subsection \<open>streamLines\<close>

text \<open>
  The inner loop of \<open>streamLines\<close>: while the buffer holds a line feed, hand the text
  before it to the sink and keep the text after it. The sink \<open>onLine\<close> acts on a state
  \<open>'s\<close> of its own (in the supervisor, the record's ring buffer).
\<close>

function drain :: "(string \<Rightarrow> 's \<Rightarrow> 's) \<Rightarrow> string \<Rightarrow> 's \<Rightarrow> string \<times> 's" where
  "drain onLine buf s =
     (case indexOf buf LF of
        None \<Rightarrow> (buf, s)
      | Some idx \<Rightarrow> drain onLine (drop (idx + 1) buf) (onLine (strip_cr (take idx buf)) s))"
  by pat_completeness auto
termination
  by (relation "measure (\<lambda>(onLine, buf, s). length buf)")
    (auto dest: indexOf_Some_less)

declare drain.simps [simp del]

text \<open>
  The outer loop takes the chunks of the stream, each a list of bytes, in order: the
  chunk is decoded, the text is added to the buffer, and the buffer is drained. The
  stream is a finite list: it has ended. After the loop the buffer is handed to the sink
  when it is not empty; the decoder is not asked for what it still holds.
\<close>

fun chunk_loop ::
    "(string \<Rightarrow> 's \<Rightarrow> 's) \<Rightarrow> string list \<Rightarrow> TextDecoder \<Rightarrow> string \<Rightarrow> 's \<Rightarrow> string \<times> 's" where
  "chunk_loop onLine [] decoder buf s = (buf, s)"
| "chunk_loop onLine (chunk # chunks) decoder buf s =
     (case decode decoder chunk of
        (t, decoder') \<Rightarrow>
          (case drain onLine (buf @ t) s of
             (buf', s') \<Rightarrow> chunk_loop onLine chunks decoder' buf' s'))"

definition streamLines :: "string list \<Rightarrow> (string \<Rightarrow> 's \<Rightarrow> 's) \<Rightarrow> 's \<Rightarrow> 's" where
  "streamLines stream onLine s =
     (case chunk_loop onLine stream new_TextDecoder [] s of
        (buf, s') \<Rightarrow> if buf \<noteq> [] then onLine buf s' else s')"

subsection \<open>The splitter as the specification words it\<close>

text \<open>
  Following the specification, not the code: the text is cut at every line feed into
  the completed lines and the unterminated remainder after the last line feed.
\<close>

fun spec_split :: "string \<Rightarrow> string list \<times> string" where
  "spec_split [] = ([], [])"
| "spec_split (c # cs) =
     (case spec_split cs of
        (ls, r) \<Rightarrow>
          if c = LF then ([] # ls, r)
          else (case ls of [] \<Rightarrow> ([], c # r) | l # ls' \<Rightarrow> ((c # l) # ls', r)))"

lemma spec_split_decomposes:
  "spec_split t = (ls, r) \<Longrightarrow>
     concat (map (\<lambda>l. l @ [LF]) ls) @ r = t \<and> LF \<notin> set r \<and> (\<forall>l \<in> set ls. LF \<notin> set l)"
  by (induction t arbitrary: ls r) (auto split: prod.splits if_splits list.splits)

lemma spec_split_no_LF: "LF \<notin> set a \<Longrightarrow> spec_split a = ([], a)"
  by (induction a) auto

lemma spec_split_line: "LF \<notin> set a \<Longrightarrow>
    spec_split (a @ LF # b) = (a # fst (spec_split b), snd (spec_split b))"
  by (induction a) (auto split: prod.splits)

lemma spec_split_append:
  "spec_split (a @ b) =
     (fst (spec_split a) @ fst (spec_split (snd (spec_split a) @ b)),
      snd (spec_split (snd (spec_split a) @ b)))"
  by (induction a) (auto split: prod.splits list.splits)

lemma indexOf_None: "indexOf xs c = None \<Longrightarrow> c \<notin> set xs"
  by (induction xs) (auto split: if_splits)

lemma indexOf_Some_split:
  "indexOf xs c = Some i \<Longrightarrow> xs = take i xs @ c # drop (i + 1) xs \<and> c \<notin> set (take i xs)"
  by (induction xs arbitrary: i) (auto split: if_splits)

lemma drain_spec_split:
  "drain onLine buf s =
     (snd (spec_split buf), fold onLine (map strip_cr (fst (spec_split buf))) s)"
proof (induction onLine buf s rule: drain.induct)
  case (1 onLine buf s)
  show ?case
  proof (cases "indexOf buf LF")
    case None
    then show ?thesis
      by (simp add: drain.simps [of onLine buf] spec_split_no_LF indexOf_None)
  next
    case (Some idx)
    from indexOf_Some_split [OF Some]
    have buf: "buf = take idx buf @ LF # drop (idx + 1) buf"
      and no: "LF \<notin> set (take idx buf)" by simp_all
    have "spec_split buf =
        (take idx buf # fst (spec_split (drop (idx + 1) buf)),
         snd (spec_split (drop (idx + 1) buf)))"
      using spec_split_line [OF no, of "drop (idx + 1) buf"] buf by simp
    then show ?thesis
      using "1.IH" [OF Some] by (simp add: drain.simps [of onLine buf] Some)
  qed
qed

lemma decode_append:
  "decode d (a @ b) =
     (fst (decode d a) @ fst (decode (snd (decode d a)) b),
      snd (decode (snd (decode d a)) b))"
  by (induction a arbitrary: d) (simp_all add: case_prod_unfold)

lemma chunk_loop_spec_split:
  "chunk_loop onLine chunks d buf s =
     (snd (spec_split (buf @ fst (decode d (concat chunks)))),
      fold onLine (map strip_cr (fst (spec_split (buf @ fst (decode d (concat chunks)))))) s)"
    if "LF \<notin> set buf"
  using that
proof (induction chunks arbitrary: d buf s)
  case Nil
  then show ?case by (simp add: spec_split_no_LF)
next
  case (Cons chunk chunks)
  let ?t = "fst (decode d chunk)" and ?d' = "snd (decode d chunk)"
  let ?r = "snd (spec_split (buf @ ?t))"
  let ?rest = "fst (decode ?d' (concat chunks))"
  have r: "LF \<notin> set ?r"
    using spec_split_decomposes [of "buf @ ?t"] by (cases "spec_split (buf @ ?t)") auto
  have whole: "fst (decode d (concat (chunk # chunks))) = ?t @ ?rest"
    by (simp add: decode_append)
  have app: "spec_split (buf @ ?t @ ?rest) =
     (fst (spec_split (buf @ ?t)) @ fst (spec_split (?r @ ?rest)),
      snd (spec_split (?r @ ?rest)))"
    using spec_split_append [of "buf @ ?t" ?rest] by simp
  show ?case
    unfolding whole
    by (simp add: drain_spec_split Cons.IH [OF r] app case_prod_unfold)
qed

text \<open>
  What \<open>streamLines\<close> does with a stream, in any chunking: the sink receives, once each
  and in order, every line of the decoded text that a line feed completes, with one
  trailing carriage return removed, and then, when the decoded text after the last line
  feed is not empty, that text as it is. The decoded text is the one \<open>decode\<close> gives for
  all the bytes of the stream at once; bytes of ASCII decode to themselves.
\<close>

lemma strip_cr_removes_one_CR:
  "strip_cr (l @ [CR]) = l" "l = [] \<or> last l \<noteq> CR \<Longrightarrow> strip_cr l = l"
  by (auto simp: strip_cr_def)

lemma streamLines_lines_of_decoded_text:
  "(case spec_split (fst (decode new_TextDecoder (concat stream))) of
      (ls, r) \<Rightarrow>
        concat (map (\<lambda>l. l @ [LF]) ls) @ r = fst (decode new_TextDecoder (concat stream))
        \<and> LF \<notin> set r \<and> (\<forall>l \<in> set ls. LF \<notin> set l)
        \<and> streamLines stream onLine s
            = fold onLine (map strip_cr ls @ (if r = [] then [] else [r])) s
        \<and> streamLines stream (\<lambda>l out. out @ [l]) []
            = map strip_cr ls @ (if r = [] then [] else [r]))
   \<and> streamLines stream onLine s = streamLines [concat stream] onLine s"
proof -
  obtain ls r where sp: "spec_split (fst (decode new_TextDecoder (concat stream))) = (ls, r)"
    by (cases "spec_split (fst (decode new_TextDecoder (concat stream)))")
  have run: "streamLines st f t
      = fold f (map strip_cr (fst (spec_split (fst (decode new_TextDecoder (concat st)))))
                @ (if snd (spec_split (fst (decode new_TextDecoder (concat st)))) = [] then []
                   else [snd (spec_split (fst (decode new_TextDecoder (concat st))))])) t"
    for st :: "string list" and f :: "string \<Rightarrow> 't \<Rightarrow> 't" and t
    using chunk_loop_spec_split [of "[]" f st new_TextDecoder t]
    by (simp add: streamLines_def)
  have app: "fold (\<lambda>l out. out @ [l]) xs acc = acc @ xs" for xs acc :: "string list"
    by (induction xs arbitrary: acc) simp_all
  have "streamLines stream onLine s = streamLines [concat stream] onLine s"
    by (simp add: run)
  moreover have "streamLines stream onLine s
      = fold onLine (map strip_cr ls @ (if r = [] then [] else [r])) s"
    by (simp add: run sp)
  moreover have "streamLines stream (\<lambda>l out. out @ [l]) []
      = map strip_cr ls @ (if r = [] then [] else [r])"
    by (simp add: run sp app)
  ultimately show ?thesis
    using spec_split_decomposes [OF sp] by (simp add: sp)
qed

lemma decode_ascii:
  assumes "\<forall>b \<in> set bs. (of_char b :: nat) \<le> 0x7F" and "needed d = 0"
  shows "fst (decode d bs) = bs"
  using assms
proof (induction bs arbitrary: d)
  case Nil
  show ?case by simp
next
  case (Cons b bs)
  from Cons.prems have b: "(of_char b :: nat) \<le> 0x7F" by simp
  have ne: "[b] \<noteq> byte_order_mark" by (simp add: byte_order_mark_def)
  have step: "TextDecoder_byte d b = ([b], d \<lparr> BOM_seen := True \<rparr>)"
    using b Cons.prems(2) ne
    by (simp add: TextDecoder_byte_def utf8_handler_def utf8_lead_def Let_def)
  have "fst (decode (d \<lparr> BOM_seen := True \<rparr>) bs) = bs"
    using Cons.prems by (intro Cons.IH) simp_all
  then show ?case by (simp add: step case_prod_unfold)
qed

lemma streamLines_carriage_returns:
  "streamLines [''ab'' @ [CR], [LF] @ ''c'' @ [CR, CR, LF, LF] @ ''d'' @ [CR]]
      (\<lambda>l out. out @ [l]) []
     = [''ab'', ''c'' @ [CR], [], ''d'' @ [CR]]"
  by code_simp

text \<open>
  Claim C9. For every byte stream, a non-empty unterminated partial line is to be
  emitted once when the stream ends. \<open>streamLines\<close> emits the buffer of decoded text and
  never asks the decoder for the bytes it still holds, those of a multi-byte sequence
  the stream ended in. The stream \<open>hi\<close>, \<open>0xC3\<close> has \<open>hi\<close> emitted and its last byte
  lost; the stream of the one byte \<open>0xC3\<close> is a non-empty unterminated line of which
  nothing is emitted; the same byte followed by \<open>0xA9\<close> and a line feed in the next
  chunk is emitted whole. Flushed at the end of the stream, the decoder would have
  given U+FFFD for the byte.
\<close>

theorem streamLines_drops_incomplete_sequence:
  "streamLines [''hi'' @ [CHR 0xC3]] (\<lambda>l out. out @ [l]) [] = [''hi'']
   \<and> streamLines [[CHR 0xC3]] (\<lambda>l out. out @ [l]) [] = []
   \<and> streamLines [[CHR 0xC3], [CHR 0xA9, LF]] (\<lambda>l out. out @ [l]) []
       = [[CHR 0xC3, CHR 0xA9]]"
  by code_simp

section \<open>Request bodies\<close>

text \<open>
  A parsed JSON value. \<open>JObj\<close> lists the own properties of the parsed object, each key
  once; a property that is absent reads as \<^verbatim>\<open>undefined\<close>, here \<open>None\<close>.
\<close>

datatype json =
    JNull
  | JBool bool
  | JNum js_number
  | JStr string
  | JArr "json list"
  | JObj "(string \<times> json) list"

text \<open>Truthiness, \<^verbatim>\<open>typeof v === "object"\<close> and the reading of a property.\<close>

fun truthy :: "json \<Rightarrow> bool" where
  "truthy JNull = False"
| "truthy (JBool b) = b"
| "truthy (JNum n) = (n \<noteq> Num 0 \<and> n \<noteq> NaN)"
| "truthy (JStr s) = (s \<noteq> [])"
| "truthy (JArr xs) = True"
| "truthy (JObj kvs) = True"

fun typeof_object :: "json \<Rightarrow> bool" where
  "typeof_object JNull = True"
| "typeof_object (JArr xs) = True"
| "typeof_object (JObj kvs) = True"
| "typeof_object v = False"

text \<open>
  The properties read below are never array indices nor \<^verbatim>\<open>length\<close>, so an array has
  none of them.
\<close>

fun get_prop :: "json \<Rightarrow> string \<Rightarrow> json option" where
  "get_prop (JObj kvs) k = map_of kvs k"
| "get_prop v k = None"

fun nonempty_string :: "json \<Rightarrow> bool" where
  "nonempty_string (JStr s) = (s \<noteq> [])"
| "nonempty_string v = False"

fun the_string :: "json \<Rightarrow> string" where
  "the_string (JStr s) = s"
| "the_string v = []"

fun string_array :: "json \<Rightarrow> bool" where
  "string_array (JArr xs) = list_all (\<lambda>v. case v of JStr s \<Rightarrow> True | _ \<Rightarrow> False) xs"
| "string_array v = False"

fun the_strings :: "json \<Rightarrow> string list" where
  "the_strings (JArr xs) = map the_string xs"
| "the_strings v = []"

text \<open>
  \<^verbatim>\<open>Number(v)\<close>: a number is itself, \<^verbatim>\<open>null\<close> and the booleans have fixed values; what a
  string, an array or an object converts to is the platform's numeric parsing, taken as
  the parameter \<open>coerce\<close>.
\<close>

fun to_Number :: "(json \<Rightarrow> js_number) \<Rightarrow> json \<Rightarrow> js_number" where
  "to_Number coerce (JNum n) = n"
| "to_Number coerce JNull = Num 0"
| "to_Number coerce (JBool b) = Num (if b then 1 else 0)"
| "to_Number coerce v = coerce v"

fun isFinite :: "js_number \<Rightarrow> bool" where
  "isFinite (Num n) = True"
| "isFinite n = False"

text \<open>The argument of \<open>create\<close>; an absent field is \<open>None\<close>.\<close>

record create_input =
  in_id :: "string option"
  in_binaryPath :: "string option"
  in_configToml :: "string option"
  in_config :: "json option"
  in_env :: "json option"
  in_args :: "string list option"
  in_logLines :: "js_number option"
  in_replaceIfExists :: "bool option"

text \<open>
  \<open>validateCreateBody\<close>: the checks in the order of the source, each throwing
  \<open>HttpError 400\<close>; \<^verbatim>\<open>Math.floor\<close> is the identity on the integer-valued numbers.
\<close>

definition validateCreateBody :: "(json \<Rightarrow> js_number) \<Rightarrow> json \<Rightarrow> error + create_input" where
  "validateCreateBody coerce body =
     (if \<not> truthy body \<or> \<not> typeof_object body
      then Inl (HttpError 400 ''body must be object'')
      else if (case get_prop body ''id'' of None \<Rightarrow> False | Some v \<Rightarrow> \<not> nonempty_string v)
      then Inl (HttpError 400 ''id must be non-empty string'')
      else if (case get_prop body ''binaryPath'' of
                 None \<Rightarrow> False | Some v \<Rightarrow> \<not> nonempty_string v)
      then Inl (HttpError 400 ''binaryPath must be string'')
      else if (case get_prop body ''configToml'' of
                 None \<Rightarrow> False | Some v \<Rightarrow> \<not> nonempty_string v)
      then Inl (HttpError 400 ''configToml must be string'')
      else if (case get_prop body ''config'' of None \<Rightarrow> False | Some v \<Rightarrow> \<not> typeof_object v)
      then Inl (HttpError 400 ''config must be object'')
      else if (case get_prop body ''env'' of None \<Rightarrow> False | Some v \<Rightarrow> \<not> typeof_object v)
      then Inl (HttpError 400 ''env must be object'')
      else if (case get_prop body ''args'' of None \<Rightarrow> False | Some v \<Rightarrow> \<not> string_array v)
      then Inl (HttpError 400 ''args must be string[]'')
      else if (case get_prop body ''logLines'' of
                 None \<Rightarrow> False
               | Some v \<Rightarrow> \<not> isFinite (to_Number coerce v)
                           \<or> js_less (to_Number coerce v) (Num 10))
      then Inl (HttpError 400 ''logLines must be number >= 10'')
      else
        (let out = \<lparr> in_id = map_option the_string (get_prop body ''id''),
                      in_binaryPath = map_option the_string (get_prop body ''binaryPath''),
                      in_configToml = map_option the_string (get_prop body ''configToml''),
                      in_config = get_prop body ''config'',
                      in_env = get_prop body ''env'',
                      in_args = map_option the_strings (get_prop body ''args''),
                      in_logLines = map_option (to_Number coerce) (get_prop body ''logLines''),
                      in_replaceIfExists =
                        map_option truthy (get_prop body ''replaceIfExists'') \<rparr>
         in if (case in_configToml out of None \<Rightarrow> True | Some s \<Rightarrow> s = [])
               \<and> (case in_config out of None \<Rightarrow> True | Some c \<Rightarrow> \<not> truthy c)
            then Inl (HttpError 400 ''either configToml or config must be provided'')
            else Inr out))"

section \<open>The supervisor and its host\<close>

subsection \<open>Records and the object store\<close>

datatype ManagedProcessState =
    Running (pid: int) (startedAt: int)
  | Exited (startedAt: int) (exitedAt: int) (exitCode: "int option") (signal: "string option")

fun is_exited :: "ManagedProcessState \<Rightarrow> bool" where
  "is_exited (Exited s e c g) = True"
| "is_exited (Running p s) = False"

text \<open>
  Objects live in a store and are named by references, so that two holders of one
  reference see each other's writes. The record objects and the ring buffers are in the
  store: the program assigns the \<open>state\<close> field of a record in place and pushes into a
  ring buffer in place. \<open>args\<close>, \<open>env\<close> and the state values are never written in place
  by the program and are held by value. The field \<^verbatim>\<open>id\<close> is \<open>ident\<close> here.
\<close>

type_synonym ref = nat

record ManagedProcessMeta =
  ident :: string
  binaryPath :: string
  configPath :: string
  workDir :: string
  args :: "string list"
  env :: "string \<rightharpoonup> json"
  state :: ManagedProcessState
  logBuffer :: ref

text \<open>
  What the supervisor asks of its host, as calls that change something outside:
  signal delivery, directory creation, file writing and process spawn (command line and
  working directory).
\<close>

datatype effect =
    Kill int string
  | Mkdir string
  | WriteFile string string
  | Spawn "string list" string

text \<open>
  One suspension of a running operation (an \<^verbatim>\<open>await\<close>): the time that passes beyond
  the requested delay, in milliseconds, and the children whose exit is notified
  meanwhile, each with its exit code (\<^verbatim>\<open>child.exitCode\<close>, possibly \<^verbatim>\<open>null\<close>).
\<close>

record tick =
  elapsed :: nat
  exits :: "(nat \<times> int option) list"

datatype channel = Stdout | Stderr

text \<open>
  The state of the program and of what it observes: the two fields of \<open>FrpsManager\<close>
  (\<open>processes\<close>, a \<^verbatim>\<open>Map\<close> in insertion order, and \<open>runtimeRoot\<close>), the object store, the
  clock \<^verbatim>\<open>Date.now()\<close>, the exit callbacks registered and not yet run (child, id,
  startedAt), the output captures attached (child, channel, ring buffer), the number of
  children spawned, the host calls issued so far, and the suspensions still to come.
\<close>

record world =
  processes :: "(string \<times> ref) list"
  runtimeRoot :: string
  metas :: "ref \<Rightarrow> ManagedProcessMeta"
  buffers :: "ref \<Rightarrow> RingBuffer"
  next_ref :: ref
  now :: int
  watchers :: "(nat \<times> string \<times> int) list"
  captures :: "(nat \<times> channel \<times> ref) list"
  children :: nat
  effects :: "effect list"
  future :: "tick list"

text \<open>
  The answers of the host primitives: \<^verbatim>\<open>crypto.randomUUID\<close>, \<^verbatim>\<open>process.env\<close>,
  \<^verbatim>\<open>path.join\<close>, whether \<^verbatim>\<open>stat\<close>, \<^verbatim>\<open>mkdir\<close> and \<^verbatim>\<open>writeFile\<close> succeed on a path,
  \<^verbatim>\<open>Bun.which\<close>, the pid \<^verbatim>\<open>Bun.spawn\<close> gives a command line (or its failure), and the
  numeric parsing behind \<^verbatim>\<open>Number\<close>. \<open>generateToml\<close> is the configuration renderer,
  kept abstract: nothing below depends on the text it renders.
\<close>

record host =
  randomUUID :: string
  process_env :: "string \<rightharpoonup> json"
  path_join :: "string \<Rightarrow> string \<Rightarrow> string"
  stat_ok :: "string \<Rightarrow> bool"
  which :: "string \<Rightarrow> string option"
  mkdir_ok :: "string \<Rightarrow> bool"
  writeFile_ok :: "string \<Rightarrow> bool"
  spawn_pid :: "string list \<Rightarrow> int option"
  coerce_number :: "json \<Rightarrow> js_number"
  generateToml :: "json \<Rightarrow> string"

subsection \<open>Operations that suspend\<close>

text \<open>
  An operation either returns, throws, or is still suspended when the observed future
  ends (\<open>Pending\<close>). While an operation is suspended, the exit callbacks of children
  run; the operations of two callers are taken one after the other, not interleaved.
\<close>

datatype 'a outcome = Returned 'a | Threw error | Pending

type_synonym 'a task = "world \<Rightarrow> 'a outcome \<times> world"

definition ret :: "'a \<Rightarrow> 'a task" where
  "ret a w = (Returned a, w)"

definition throw :: "error \<Rightarrow> 'a task" where
  "throw e w = (Threw e, w)"

definition andThen :: "'a task \<Rightarrow> ('a \<Rightarrow> 'b task) \<Rightarrow> 'b task" where
  "andThen m f w =
     (case m w of
        (Returned a, w') \<Rightarrow> f a w'
      | (Threw e, w') \<Rightarrow> (Threw e, w')
      | (Pending, w') \<Rightarrow> (Pending, w'))"

definition perform :: "effect \<Rightarrow> unit task" where
  "perform e w = (Returned (), w \<lparr> effects := effects w @ [e] \<rparr>)"

text \<open>
  The exit callback of \<open>create\<close> (\<^verbatim>\<open>child.exited.then\<close>): it looks the id up again and
  assigns the state of the record registered under it now.
\<close>

definition exit_watcher :: "string \<Rightarrow> int \<Rightarrow> int option \<Rightarrow> world \<Rightarrow> world" where
  "exit_watcher i started code w =
     (case map_of (processes w) i of
        None \<Rightarrow> w
      | Some prev \<Rightarrow>
          w \<lparr> metas := (metas w)
                (prev := (metas w prev) \<lparr> state := Exited started (now w) code None \<rparr>) \<rparr>)"

text \<open>
  An exit notification runs the callback registered for the child, once: the promise
  settles once, so a notification that finds no callback changes nothing.
\<close>

definition fire_exit :: "nat \<times> int option \<Rightarrow> world \<Rightarrow> world" where
  "fire_exit e w =
     (case map_of (watchers w) (fst e) of
        None \<Rightarrow> w
      | Some (i, started) \<Rightarrow>
          exit_watcher i started (snd e)
            (w \<lparr> watchers := filter (\<lambda>x. fst x \<noteq> fst e) (watchers w) \<rparr>))"

text \<open>
  Resuming after a suspension: the clock has moved by the requested delay and the
  time beyond it, and the exit notifications of the suspension have run in order.
\<close>

definition resume :: "nat \<Rightarrow> tick \<Rightarrow> world \<Rightarrow> world" where
  "resume delay t w =
     fold fire_exit (exits t) (w \<lparr> now := now w + int delay + int (elapsed t) \<rparr>)"

lemma exit_watcher_fields:
  "future (exit_watcher i started code w) = future w"
  "now (exit_watcher i started code w) = now w"
  "effects (exit_watcher i started code w) = effects w"
  by (simp_all add: exit_watcher_def split: option.splits)

lemma fire_exit_fields:
  "future (fire_exit e w) = future w"
  "now (fire_exit e w) = now w"
  "effects (fire_exit e w) = effects w"
  by (simp_all add: fire_exit_def exit_watcher_fields split: option.splits prod.splits)

lemma future_fold_fire_exit: "future (fold fire_exit es w) = future w"
  by (induction es arbitrary: w) (simp_all add: fire_exit_fields)

lemma future_resume: "future (resume d t w) = future w"
  by (simp add: resume_def future_fold_fire_exit)

subsection \<open>stop\<close>

record stop_options =
  force :: "bool option"
  timeoutMs :: "js_number option"

text \<open>
  The wait loop of \<open>stop\<close>; \<^verbatim>\<open>await Bun.sleep(50)\<close> is a suspension of at least 50 ms.
  The loop returns \<open>True\<close> with the world when it is left, and \<open>False\<close> when it is still
  sleeping at the end of the observed future.
\<close>

function poll :: "string \<Rightarrow> js_number \<Rightarrow> int \<Rightarrow> world \<Rightarrow> bool \<times> world" where
  "poll i timeout startWait w =
     (if js_less (Num (now w - startWait)) timeout
      then (case map_of (processes w) i of
              None \<Rightarrow> (True, w)
            | Some current \<Rightarrow>
                if is_exited (state (metas w current)) then (True, w)
                else (case future w of
                        [] \<Rightarrow> (False, w)
                      | t # ts \<Rightarrow> poll i timeout startWait (resume 50 t (w \<lparr> future := ts \<rparr>))))
      else (True, w))"
  by pat_completeness auto
termination
  by (relation "measure (\<lambda>(i, timeout, startWait, w). length (future w))")
    (auto simp: future_resume)

declare poll.simps [simp del]

definition stop :: "string \<Rightarrow> stop_options option \<Rightarrow> bool task" where
  "stop i options w =
     (case map_of (processes w) i of
        None \<Rightarrow> (Returned False, w)
      | Some meta \<Rightarrow>
          (case state (metas w meta) of
             Exited s e c g \<Rightarrow> (Returned True, w)
           | Running p s \<Rightarrow>
               (let force' = (case options of
                                None \<Rightarrow> False
                              | Some opts \<Rightarrow> (case force opts of None \<Rightarrow> False | Some f \<Rightarrow> f));
                    timeout = (case options of
                                 None \<Rightarrow> Num 3000
                               | Some opts \<Rightarrow>
                                   (case timeoutMs opts of None \<Rightarrow> Num 3000 | Some t \<Rightarrow> t));
                    w1 = w \<lparr> effects := effects w @ [Kill p ''SIGTERM''] \<rparr>
                in case poll i timeout (now w1) w1 of
                     (False, w2) \<Rightarrow> (Pending, w2)
                   | (True, w2) \<Rightarrow>
                       (case map_of (processes w2) i of
                          None \<Rightarrow> (Returned True, w2)
                        | Some current \<Rightarrow>
                            (case state (metas w2 current) of
                               Running p' s' \<Rightarrow>
                                 if force'
                                 then (Returned True,
                                       w2 \<lparr> effects := effects w2 @ [Kill p' ''SIGKILL''] \<rparr>)
                                 else (Returned True, w2)
                             | Exited s' e' c' g' \<Rightarrow> (Returned True, w2))))))"

subsection \<open>create\<close>

text \<open>
  \<^verbatim>\<open>await f()\<close>: the call runs, and the caller resumes one suspension later with what
  the call returned or threw.
\<close>

definition awaited :: "'a task \<Rightarrow> 'a task" where
  "awaited m w =
     (case m w of
        (Pending, w') \<Rightarrow> (Pending, w')
      | (r, w') \<Rightarrow>
          (case future w' of
             [] \<Rightarrow> (Pending, w')
           | t # ts \<Rightarrow> (r, resume 0 t (w' \<lparr> future := ts \<rparr>))))"

text \<open>\<^verbatim>\<open>Map.prototype.set\<close>: an existing key keeps its place, a new key goes last.\<close>

fun Map_set :: "('k \<times> 'v) list \<Rightarrow> 'k \<Rightarrow> 'v \<Rightarrow> ('k \<times> 'v) list" where
  "Map_set [] k v = [(k, v)]"
| "Map_set (p # ps) k v = (if fst p = k then (k, v) # ps else p # Map_set ps k v)"

text \<open>\<^verbatim>\<open>binaryPath.includes("/") || binaryPath.includes("\\")\<close>\<close>

definition has_separator :: "string \<Rightarrow> bool" where
  "has_separator bin \<longleftrightarrow> CHR ''/'' \<in> set bin \<or> CHR 0x5C \<in> set bin"

definition assertBinaryExists :: "host \<Rightarrow> string \<Rightarrow> unit task" where
  "assertBinaryExists h bin =
     (if has_separator bin
      then awaited (if stat_ok h bin then ret ()
                    else throw (HttpError 400 (''binary not found at path: '' @ bin)))
      else (case which h bin of
              None \<Rightarrow> throw (HttpError 400 (''binary not found in PATH: '' @ bin))
            | Some resolved \<Rightarrow>
                if resolved = []
                then throw (HttpError 400 (''binary not found in PATH: '' @ bin))
                else ret ()))"

text \<open>
  The own enumerable properties an object spread copies: those of an object, the
  indexed elements of an array or of a string, none of any other value.
\<close>

fun own_props :: "json \<Rightarrow> (string \<rightharpoonup> json)" where
  "own_props (JObj kvs) = map_of kvs"
| "own_props (JArr xs) = map_of (zip (map decimal [0..<length xs]) xs)"
| "own_props (JStr s) = map_of (zip (map decimal [0..<length s]) (map (\<lambda>c. JStr [c]) s))"
| "own_props v = Map.empty"

text \<open>
  The last part of \<open>create\<close>, from \<^verbatim>\<open>Bun.spawn\<close> to the return, runs without a
  suspension. The environment handed to the child is not listed in the \<open>Spawn\<close> effect.
\<close>

definition create_args :: "create_input \<Rightarrow> string \<Rightarrow> string list" where
  "create_args input cfg =
     (case in_args input of
        None \<Rightarrow> [''-c'', cfg]
      | Some a \<Rightarrow> if a \<noteq> [] then a else [''-c'', cfg])"

definition spawn_and_register ::
    "host \<Rightarrow> create_input \<Rightarrow> string \<Rightarrow> string \<Rightarrow> string \<Rightarrow> string \<Rightarrow> ref task" where
  "spawn_and_register h input i bin dir cfg w =
     (let args' = create_args input cfg;
          env' = process_env h ++
                   own_props (case in_env input of
                                None \<Rightarrow> JObj []
                              | Some e \<Rightarrow> if e = JNull then JObj [] else e);
          w1 = w \<lparr> effects := effects w @ [Spawn (bin # args') dir] \<rparr>
      in case spawn_pid h (bin # args') of
           None \<Rightarrow> (Threw (HostFailure ''spawn''), w1)
         | Some p \<Rightarrow>
             (let child = children w1;
                  w2 = w1 \<lparr> children := child + 1 \<rparr>
              in case new_RingBuffer (case in_logLines input of
                                        None \<Rightarrow> Num 1000 | Some n \<Rightarrow> n) of
                   Inl e \<Rightarrow> (Threw e, w2)
                 | Inr rb \<Rightarrow>
                     (let lb = next_ref w2;
                          m = lb + 1;
                          started = now w2;
                          meta = \<lparr> ident = i, binaryPath = bin, configPath = cfg,
                                   workDir = dir, args = args', env = env',
                                   state = Running p started, logBuffer = lb \<rparr>
                      in (Returned m,
                          w2 \<lparr> buffers := (buffers w2)(lb := rb),
                               metas := (metas w2)(m := meta),
                               next_ref := m + 1,
                               processes := Map_set (processes w2) i m,
                               captures := captures w2 @ [(child, Stdout, lb), (child, Stderr, lb)],
                               watchers := watchers w2 @ [(child, i, started)] \<rparr>))))"

text \<open>
  \<open>create\<close>, in the order of the source: the check of the id (with the forced stop of
  the record it replaces), the check of the binary, the working directory, the
  configuration file, and the spawn. Each \<^verbatim>\<open>await\<close> of the source is an \<open>awaited\<close>.
\<close>

definition replace_existing :: "create_input \<Rightarrow> string \<Rightarrow> bool task" where
  "replace_existing input i w =
     (if map_of (processes w) i \<noteq> None
      then (if in_replaceIfExists input = Some True
            then awaited (stop i (Some \<lparr> force = Some True, timeoutMs = Some (Num 1000) \<rparr>)) w
            else throw (HttpError 409 (''frps with id '' @ i @ '' already exists'')) w)
      else ret False w)"

definition make_workDir :: "host \<Rightarrow> string \<Rightarrow> unit task" where
  "make_workDir h dir =
     awaited (andThen (perform (Mkdir dir))
                (\<lambda>_. if mkdir_ok h dir then ret () else throw (HostFailure ''mkdir'')))"

definition write_config :: "host \<Rightarrow> string \<Rightarrow> string \<Rightarrow> unit task" where
  "write_config h cfg toml =
     awaited (andThen (perform (WriteFile cfg toml))
                (\<lambda>_. if writeFile_ok h cfg then ret () else throw (HostFailure ''writeFile'')))"

text \<open>
  The values \<open>create\<close> computes from its argument: \<^verbatim>\<open>input.id ?? crypto.randomUUID()\<close>,
  \<^verbatim>\<open>input.binaryPath ?? "frps"\<close>, the working directory \<^verbatim>\<open>frps-${id}\<close> under the
  runtime root, the path of \<^verbatim>\<open>frps.toml\<close> in it, and the text of that file.
\<close>

definition create_id :: "host \<Rightarrow> create_input \<Rightarrow> string" where
  "create_id h input = (case in_id input of None \<Rightarrow> randomUUID h | Some x \<Rightarrow> x)"

definition create_binaryPath :: "create_input \<Rightarrow> string" where
  "create_binaryPath input = (case in_binaryPath input of None \<Rightarrow> ''frps'' | Some b \<Rightarrow> b)"

definition create_workDir :: "host \<Rightarrow> string \<Rightarrow> string \<Rightarrow> string" where
  "create_workDir h root i = path_join h root (''frps-'' @ i)"

definition create_configPath :: "host \<Rightarrow> string \<Rightarrow> string \<Rightarrow> string" where
  "create_configPath h root i = path_join h (create_workDir h root i) ''frps.toml''"

definition create_configToml :: "host \<Rightarrow> create_input \<Rightarrow> string" where
  "create_configToml h input =
     (let rendered = generateToml h (case in_config input of
                                       None \<Rightarrow> JObj []
                                     | Some c \<Rightarrow> if c = JNull then JObj [] else c)
      in case in_configToml input of
           None \<Rightarrow> rendered
         | Some t \<Rightarrow> if t \<noteq> [] then t else rendered)"

definition create :: "host \<Rightarrow> create_input \<Rightarrow> ref task" where
  "create h input w =
     (let i = create_id h input;
          bin = create_binaryPath input;
          dir = create_workDir h (runtimeRoot w) i;
          cfg = create_configPath h (runtimeRoot w) i;
          toml = create_configToml h input
      in andThen (replace_existing input i)
           (\<lambda>_. andThen (awaited (assertBinaryExists h bin))
           (\<lambda>_. andThen (make_workDir h dir)
           (\<lambda>_. andThen (write_config h cfg toml)
           (\<lambda>_. spawn_and_register h input i bin dir cfg)))) w)"

text \<open>
  The output captures of \<open>create\<close>: each runs \<open>streamLines\<close> on one channel of the
  child and pushes the tagged lines into the record's ring buffer.
\<close>

fun tag :: "channel \<Rightarrow> string" where
  "tag Stdout = ''[stdout] ''"
| "tag Stderr = ''[stderr] ''"

definition capture_output :: "nat \<Rightarrow> channel \<Rightarrow> string list \<Rightarrow> world \<Rightarrow> world" where
  "capture_output child ch stream w =
     fold (\<lambda>(c, ch', lb) w'.
             if c = child \<and> ch' = ch
             then streamLines stream
                    (\<lambda>line w''. w'' \<lparr> buffers := (buffers w'')
                                     (lb := push (tag ch @ line) (buffers w'' lb)) \<rparr>) w'
             else w')
          (captures w) w"

subsection \<open>list and get\<close>

text \<open>
  \<open>list\<close> (here \<open>list_metas\<close>) builds, for each registered record in order, a new
  object with the same fields (\<^verbatim>\<open>{ ...p }\<close>): the new object holds the same reference
  to the ring buffer. \<open>get\<close> (here \<open>get_meta\<close>) returns the registered reference itself.
\<close>

fun copy_all :: "ref list \<Rightarrow> world \<Rightarrow> ref list \<times> world" where
  "copy_all [] w = ([], w)"
| "copy_all (p # ps) w =
     (let c = next_ref w;
          w1 = w \<lparr> metas := (metas w)(c := metas w p), next_ref := c + 1 \<rparr>
      in case copy_all ps w1 of (cs, w2) \<Rightarrow> (c # cs, w2))"

definition list_metas :: "world \<Rightarrow> ref list \<times> world" where
  "list_metas w = copy_all (map snd (processes w)) w"

definition get_meta :: "string \<Rightarrow> world \<Rightarrow> ref option" where
  "get_meta i w = map_of (processes w) i"

text \<open>
  What a caller can do with a reference it was given: assign fields of the record
  object it names (any new contents), and push into the ring buffer the record refers to.
\<close>

definition assign_meta :: "ref \<Rightarrow> ManagedProcessMeta \<Rightarrow> world \<Rightarrow> world" where
  "assign_meta r m w = w \<lparr> metas := (metas w)(r := m) \<rparr>"

definition push_log :: "ref \<Rightarrow> string \<Rightarrow> world \<Rightarrow> world" where
  "push_log r line w =
     w \<lparr> buffers := (buffers w)
           (logBuffer (metas w r) := push line (buffers w (logBuffer (metas w r)))) \<rparr>"

text \<open>
  The registry as the supervisor reads it: under each id, the record object and the
  contents of its ring buffer.
\<close>

definition registry :: "world \<Rightarrow> (string \<times> ManagedProcessMeta \<times> RingBuffer) list" where
  "registry w =
     map (\<lambda>(i, r). (i, metas w r, buffers w (logBuffer (metas w r)))) (processes w)"

subsection \<open>The request that creates a process\<close>

text \<open>
  The branch \<^verbatim>\<open>POST /frps\<close> of the server: the parsed body goes through
  \<open>validateCreateBody\<close>, and only what it returns reaches \<open>create\<close>.
\<close>

definition post_frps :: "host \<Rightarrow> json \<Rightarrow> ref task" where
  "post_frps h body =
     (case validateCreateBody (coerce_number h) body of
        Inl e \<Rightarrow> throw e
      | Inr input \<Rightarrow> awaited (create h input))"

text \<open>A supervisor just constructed: \<^verbatim>\<open>new FrpsManager(runtimeRoot)\<close> at time \<open>t\<close>.\<close>

definition blank_meta :: ManagedProcessMeta where
  "blank_meta = \<lparr> ident = [], binaryPath = [], configPath = [], workDir = [], args = [],
                  env = Map.empty, state = Running 0 0, logBuffer = 0 \<rparr>"

definition new_FrpsManager :: "string \<Rightarrow> int \<Rightarrow> tick list \<Rightarrow> world" where
  "new_FrpsManager root t fut =
     \<lparr> processes = [], runtimeRoot = root, metas = (\<lambda>_. blank_meta),
       buffers = (\<lambda>_. \<lparr> capacity = 10, buffer = [], index = 0, filled = False \<rparr>),
       next_ref = 0, now = t, watchers = [], captures = [], children = 0, effects = [],
       future = fut \<rparr>"

section \<open>What suspensions and signals leave alone\<close>

text \<open>
  \<open>quiet w w'\<close>: from \<open>w\<close> to \<open>w'\<close> the registry, the buffers and the store's
  allocation are the same, and a record differs at most in its \<open>state\<close>, which is then
  \<open>Exited\<close>. This is what the passing of time, exit callbacks and host calls do.
\<close>

definition quiet :: "world \<Rightarrow> world \<Rightarrow> bool" where
  "quiet w w' \<longleftrightarrow>
     processes w' = processes w \<and> runtimeRoot w' = runtimeRoot w
     \<and> buffers w' = buffers w \<and> next_ref w' = next_ref w
     \<and> children w' = children w \<and> captures w' = captures w
     \<and> (\<forall>r. metas w' r = (metas w r) \<lparr> state := state (metas w' r) \<rparr>
            \<and> (state (metas w' r) = state (metas w r) \<or> is_exited (state (metas w' r))))"

lemma quietI:
  assumes "processes w' = processes w" and "runtimeRoot w' = runtimeRoot w"
    and "buffers w' = buffers w" and "next_ref w' = next_ref w"
    and "children w' = children w" and "captures w' = captures w"
    and "\<And>r. metas w' r = (metas w r) \<lparr> state := state (metas w' r) \<rparr>"
    and "\<And>r. state (metas w' r) = state (metas w r) \<or> is_exited (state (metas w' r))"
  shows "quiet w w'"
  unfolding quiet_def using assms by blast

lemma quiet_refl: "quiet w w"
  by (rule quietI) simp_all

lemma quiet_trans:
  assumes "quiet w w'" and "quiet w' w''"
  shows "quiet w w''"
proof (rule quietI)
  fix r
  from assms(1) have a: "metas w' r = (metas w r) \<lparr> state := state (metas w' r) \<rparr>"
    and a': "state (metas w' r) = state (metas w r) \<or> is_exited (state (metas w' r))"
    unfolding quiet_def by blast+
  from assms(2) have b: "metas w'' r = (metas w' r) \<lparr> state := state (metas w'' r) \<rparr>"
    and b': "state (metas w'' r) = state (metas w' r) \<or> is_exited (state (metas w'' r))"
    unfolding quiet_def by blast+
  show "metas w'' r = (metas w r) \<lparr> state := state (metas w'' r) \<rparr>"
    by (subst b, subst a) simp
  from a' b' show "state (metas w'' r) = state (metas w r)
      \<or> is_exited (state (metas w'' r))" by metis
qed (use assms in \<open>simp_all add: quiet_def\<close>)

lemma quiet_exit_watcher: "quiet w (exit_watcher i started code w)"
proof (cases "map_of (processes w) i")
  case None
  then show ?thesis by (simp add: exit_watcher_def quiet_refl)
next
  case (Some prev)
  then have eq: "exit_watcher i started code w =
      w \<lparr> metas := (metas w)
            (prev := (metas w prev) \<lparr> state := Exited started (now w) code None \<rparr>) \<rparr>"
    by (simp add: exit_watcher_def)
  show ?thesis unfolding eq by (rule quietI) simp_all
qed

lemma quiet_fire_exit: "quiet w (fire_exit e w)"
proof (cases "map_of (watchers w) (fst e)")
  case None
  then show ?thesis by (simp add: fire_exit_def quiet_refl)
next
  case (Some a)
  obtain i started where a: "a = (i, started)" by (cases a)
  let ?w1 = "w \<lparr> watchers := filter (\<lambda>x. fst x \<noteq> fst e) (watchers w) \<rparr>"
  have "quiet w ?w1" by (rule quietI) simp_all
  moreover have "quiet ?w1 (exit_watcher i started (snd e) ?w1)"
    by (rule quiet_exit_watcher)
  ultimately have "quiet w (exit_watcher i started (snd e) ?w1)"
    by (rule quiet_trans)
  then show ?thesis
    using Some a by (simp add: fire_exit_def)
qed

lemma quiet_fold_fire_exit: "quiet w (fold fire_exit es w)"
proof (induction es arbitrary: w)
  case Nil
  show ?case by (simp add: quiet_refl)
next
  case (Cons e es)
  show ?case using quiet_trans [OF quiet_fire_exit Cons] by simp
qed

lemma quiet_resume: "quiet w (resume d t w)"
proof -
  have "quiet w (w \<lparr> now := now w + int d + int (elapsed t) \<rparr>)"
    by (rule quietI) simp_all
  then show ?thesis
    unfolding resume_def by (rule quiet_trans [OF _ quiet_fold_fire_exit])
qed

lemma quiet_future_update: "quiet w (w \<lparr> future := ts \<rparr>)"
  by (rule quietI) simp_all

lemma quiet_tick: "quiet w (resume d t (w \<lparr> future := ts \<rparr>))"
  by (rule quiet_trans [OF quiet_future_update quiet_resume])

lemma effects_fold_fire_exit: "effects (fold fire_exit es w) = effects w"
  by (induction es arbitrary: w) (simp_all add: fire_exit_fields)

lemma effects_resume: "effects (resume d t w) = effects w"
  by (simp add: resume_def effects_fold_fire_exit)

lemma quiet_effects_update: "quiet w (w \<lparr> effects := es \<rparr>)"
  by (rule quietI) simp_all

lemma now_fold_fire_exit: "now (fold fire_exit es w) = now w"
  by (induction es arbitrary: w) (simp_all add: fire_exit_fields)

lemma now_resume: "now (resume d t w) = now w + int d + int (elapsed t)"
  by (simp add: resume_def now_fold_fire_exit)

lemma quiet_poll: "quiet w (snd (poll i timeout startWait w))"
proof (induction i timeout startWait w rule: poll.induct)
  case (1 i timeout startWait w)
  show ?case
  proof (cases "js_less (Num (now w - startWait)) timeout")
    case False
    then show ?thesis by (simp add: poll.simps [of i timeout startWait w] quiet_refl)
  next
    case less: True
    show ?thesis
    proof (cases "map_of (processes w) i")
      case None
      with less show ?thesis by (simp add: poll.simps [of i timeout startWait w] quiet_refl)
    next
      case (Some current)
      show ?thesis
      proof (cases "is_exited (state (metas w current))")
        case True
        with less Some show ?thesis
          by (simp add: poll.simps [of i timeout startWait w] quiet_refl)
      next
        case running: False
        show ?thesis
        proof (cases "future w")
          case Nil
          with less Some running show ?thesis
            by (simp add: poll.simps [of i timeout startWait w] quiet_refl)
        next
          case (Cons t ts)
          have "quiet (resume 50 t (w \<lparr> future := ts \<rparr>))
                  (snd (poll i timeout startWait (resume 50 t (w \<lparr> future := ts \<rparr>))))"
            by (rule "1.IH" [OF less Some running Cons])
          then have "quiet w (snd (poll i timeout startWait (resume 50 t (w \<lparr> future := ts \<rparr>))))"
            by (rule quiet_trans [OF quiet_tick])
          with less Some running Cons show ?thesis
            by (simp add: poll.simps [of i timeout startWait w])
        qed
      qed
    qed
  qed
qed

lemma effects_poll: "effects (snd (poll i timeout startWait w)) = effects w"
proof (induction i timeout startWait w rule: poll.induct)
  case (1 i timeout startWait w)
  show ?case
  proof (cases "js_less (Num (now w - startWait)) timeout
      \<and> (\<exists>current. map_of (processes w) i = Some current
            \<and> \<not> is_exited (state (metas w current)))
      \<and> future w \<noteq> []")
    case True
    then obtain current t ts where c: "js_less (Num (now w - startWait)) timeout"
      "map_of (processes w) i = Some current" "\<not> is_exited (state (metas w current))"
      "future w = t # ts"
      by (cases "future w") auto
    from "1.IH" [OF c] c show ?thesis
      by (simp add: poll.simps [of i timeout startWait w] effects_resume)
  next
    case False
    then show ?thesis
      by (cases "future w")
        (simp_all add: poll.simps [of i timeout startWait w] split: option.splits)
  qed
qed

text \<open>
  With a finite time limit the wait loop ends: every sleep takes at least 50 ms, so a
  future of \<open>limit / 50\<close> suspensions, and \<open>k\<close> more, leaves the loop with \<open>k\<close> to spare.
\<close>

lemma poll_returns:
  assumes "limit - (now w - startWait) \<le> 50 * (int (length (future w)) - int k)"
    and "k \<le> length (future w)"
  shows "fst (poll i (Num limit) startWait w)
       \<and> k \<le> length (future (snd (poll i (Num limit) startWait w)))"
  using assms
proof (induction i "Num limit" startWait w rule: poll.induct)
  case (1 i startWait w)
  show ?case
  proof (cases "now w - startWait < limit")
    case False
    with "1.prems" show ?thesis by (simp add: poll.simps [of i "Num limit" startWait w])
  next
    case less: True
    then have jl: "js_less (Num (now w - startWait)) (Num limit)" by simp
    show ?thesis
    proof (cases "map_of (processes w) i")
      case None
      with less "1.prems" show ?thesis
        by (simp add: poll.simps [of i "Num limit" startWait w])
    next
      case (Some current)
      show ?thesis
      proof (cases "is_exited (state (metas w current))")
        case True
        with less Some "1.prems" show ?thesis
          by (simp add: poll.simps [of i "Num limit" startWait w])
      next
        case running: False
        show ?thesis
        proof (cases "future w")
          case Nil
          with less "1.prems" show ?thesis by simp
        next
          case (Cons t ts)
          let ?w' = "resume 50 t (w \<lparr> future := ts \<rparr>)"
          have f: "future ?w' = ts" by (simp add: future_resume)
          have n: "now ?w' = now w + 50 + int (elapsed t)" by (simp add: now_resume)
          from "1.prems" less Cons have k: "k \<le> length ts" by simp
          have b: "limit - (now ?w' - startWait) \<le> 50 * (int (length (future ?w')) - int k)"
            using "1.prems"(1) Cons by (simp add: f n)
          have "fst (poll i (Num limit) startWait ?w')
              \<and> k \<le> length (future (snd (poll i (Num limit) startWait ?w')))"
            using "1.hyps" [OF jl Some running Cons b] k f by simp
          with less Some running Cons show ?thesis
            by (simp add: poll.simps [of i "Num limit" startWait w])
        qed
      qed
    qed
  qed
qed

section \<open>A concrete supervisor\<close>

text \<open>
  A host on which \<open>frps\<close> resolves through the search path, every file system call
  succeeds and every spawn gives pid 4242; a request for id \<open>a\<close> with a raw
  configuration; and the supervisor after that request on a fresh manager at time 1000,
  with five quiet suspensions left.
\<close>

definition host0 :: host where
  "host0 = \<lparr> randomUUID = ''uuid-1'',
             process_env = [''PATH'' \<mapsto> JStr ''/usr/bin''],
             path_join = (\<lambda>a b. a @ ''/'' @ b),
             stat_ok = (\<lambda>p. p = ''/usr/bin/frps''),
             which = (\<lambda>n. if n = ''frps'' then Some ''/usr/bin/frps'' else None),
             mkdir_ok = (\<lambda>p. True),
             writeFile_ok = (\<lambda>p. True),
             spawn_pid = (\<lambda>cmd. Some 4242),
             coerce_number = (\<lambda>v. NaN),
             generateToml = (\<lambda>c. [LF]) \<rparr>"

definition input0 :: create_input where
  "input0 = \<lparr> in_id = Some ''a'', in_binaryPath = None,
              in_configToml = Some ''bindPort = 7000'', in_config = None, in_env = None,
              in_args = None, in_logLines = None, in_replaceIfExists = None \<rparr>"

definition calm :: tick where
  "calm = \<lparr> elapsed = 0, exits = [] \<rparr>"

definition world0 :: world where
  "world0 = snd (create host0 input0
                  (new_FrpsManager ''/rt'' 1000 [calm, calm, calm, calm, calm, calm, calm, calm]))"

lemma world0_facts:
  "fst (create host0 input0
         (new_FrpsManager ''/rt'' 1000 [calm, calm, calm, calm, calm, calm, calm, calm]))
     = Returned 1"
  "processes world0 = [(''a'', 1)]"
  "state (metas world0 1) = Running 4242 1000"
  "workDir (metas world0 1) = ''/rt/frps-a''"
  "logBuffer (metas world0 1) = 0"
  "next_ref world0 = 2"
  "effects world0 = [Mkdir ''/rt/frps-a'',
                     WriteFile ''/rt/frps-a/frps.toml'' ''bindPort = 7000'',
                     Spawn [''frps'', ''-c'', ''/rt/frps-a/frps.toml''] ''/rt/frps-a'']"
  "future world0 = [calm, calm, calm, calm, calm]"
  "watchers world0 = [(0, ''a'', 1000)]"
  "now world0 = 1000"
  "runtimeRoot world0 = ''/rt''"
  "children world0 = 1"
  unfolding world0_def
  by (simp_all add: create_def host0_def input0_def new_FrpsManager_def calm_def
      andThen_def awaited_def ret_def throw_def perform_def assertBinaryExists_def
      replace_existing_def make_workDir_def write_config_def has_separator_def
      create_id_def create_binaryPath_def create_workDir_def create_configPath_def
      create_configToml_def
      resume_def spawn_and_register_def create_args_def new_RingBuffer_def Let_def)

text \<open>The same supervisor after the child exited with code 0, seven milliseconds later.\<close>

definition world0_exited :: world where
  "world0_exited = resume 0 \<lparr> elapsed = 7, exits = [(0, Some 0)] \<rparr> world0"

lemma world0_exited_facts:
  "processes world0_exited = [(''a'', 1)]"
  "state (metas world0_exited 1) = Exited 1000 1007 (Some 0) None"
  "next_ref world0_exited = 2"
  "effects world0_exited = effects world0"
  unfolding world0_exited_def
  by (simp_all add: resume_def fire_exit_def exit_watcher_def world0_facts)

section \<open>stop\<close>

text \<open>
  Claim C7. In every state: \<open>stop\<close> with an id that is not registered returns false
  and leaves the whole state as it is (registry, records, host calls); \<open>stop\<close> with an
  id whose record is \<open>Exited\<close> returns true at once, the state unchanged, so without a
  signal and without a suspension.
\<close>

theorem stop_unknown_or_exited:
  "(map_of (processes w) i = None \<longrightarrow> stop i options w = (Returned False, w))
   \<and> (map_of (processes w) i = Some r \<and> is_exited (state (metas w r))
        \<longrightarrow> stop i options w = (Returned True, w))"
  by (cases "state (metas w r)") (simp_all add: stop_def)

theorem stop_unknown_or_exited_witness:
  "map_of (processes world0_exited) ''b'' = None
   \<and> stop ''b'' None world0_exited = (Returned False, world0_exited)
   \<and> map_of (processes world0_exited) ''a'' = Some 1
   \<and> is_exited (state (metas world0_exited 1))
   \<and> stop ''a'' (Some \<lparr> force = Some True, timeoutMs = None \<rparr>) world0_exited
       = (Returned True, world0_exited)"
proof -
  have a: "map_of (processes world0_exited) ''b'' = None"
    and b: "map_of (processes world0_exited) ''a'' = Some 1"
    and c: "is_exited (state (metas world0_exited 1))"
    by (simp_all add: world0_exited_facts del: One_nat_def)
  show ?thesis
    using a b c stop_unknown_or_exited [of world0_exited "''b''" None 1]
      stop_unknown_or_exited
        [of world0_exited "''a''" "Some \<lparr> force = Some True, timeoutMs = None \<rparr>" 1]
    by simp
qed

subsection \<open>The forced stop of create\<close>

lemma awaited_result:
  assumes "m w = (r, w')" and "r \<noteq> Pending" and "future w' \<noteq> []"
  shows "\<exists>w''. awaited m w = (r, w'') \<and> quiet w' w'' \<and> effects w'' = effects w'
           \<and> Suc (length (future w'')) = length (future w')"
proof -
  from assms(3) obtain t ts where f: "future w' = t # ts" by (cases "future w'") auto
  let ?w'' = "resume 0 t (w' \<lparr> future := ts \<rparr>)"
  have "awaited m w = (r, ?w'')"
    using assms(1,2) f by (cases r) (simp_all add: awaited_def)
  moreover have "quiet w' ?w''" by (rule quiet_tick)
  moreover have "Suc (length (future ?w'')) = length (future w')"
    by (simp add: future_resume f)
  moreover have "effects ?w'' = effects w'"
    by (simp add: effects_resume)
  ultimately show ?thesis by blast
qed

lemma stop_running:
  assumes reg: "map_of (processes w) i = Some r0"
    and run: "state (metas w r0) = Running p0 t0"
    and fut: "20 + k \<le> length (future w)"
  shows "\<exists>w' ks. stop i (Some \<lparr> force = Some True, timeoutMs = Some (Num 1000) \<rparr>) w
                    = (Returned True, w')
           \<and> k \<le> length (future w')
           \<and> effects w' = effects w @ Kill p0 ''SIGTERM'' # ks
           \<and> (is_exited (state (metas w' r0)) \<and> ks = []
               \<or> state (metas w' r0) = Running p0 t0 \<and> ks = [Kill p0 ''SIGKILL''])
           \<and> quiet w w'"
proof -
  let ?w1 = "w \<lparr> effects := effects w @ [Kill p0 ''SIGTERM''] \<rparr>"
  obtain b w2 where p0: "poll i (Num 1000) (now ?w1) ?w1 = (b, w2)"
    by (cases "poll i (Num 1000) (now ?w1) ?w1")
  have "1000 - (now ?w1 - now ?w1) \<le> 50 * (int (length (future ?w1)) - int k)"
    and "k \<le> length (future ?w1)"
    using fut by simp_all
  from poll_returns [OF this, of i] p0
  have p: "poll i (Num 1000) (now ?w1) ?w1 = (True, w2)" and k: "k \<le> length (future w2)"
    by simp_all
  have q1: "quiet ?w1 w2" using quiet_poll [of ?w1 i "Num 1000" "now ?w1"] p by simp
  have q: "quiet w w2" by (rule quiet_trans [OF quiet_effects_update q1])
  have ef: "effects w2 = effects ?w1"
    using effects_poll [of i "Num 1000" "now ?w1" ?w1] p by simp
  from q have pr: "processes w2 = processes w"
    and st: "state (metas w2 r0) = state (metas w r0) \<or> is_exited (state (metas w2 r0))"
    by (simp_all add: quiet_def)
  have stop_eq: "stop i (Some \<lparr> force = Some True, timeoutMs = Some (Num 1000) \<rparr>) w =
      (case state (metas w2 r0) of
         Running p' s' \<Rightarrow> (Returned True, w2 \<lparr> effects := effects w2 @ [Kill p' ''SIGKILL''] \<rparr>)
       | Exited s' e' c' g' \<Rightarrow> (Returned True, w2))"
    using reg run p pr by (simp add: stop_def Let_def split: ManagedProcessState.splits)
  show ?thesis
  proof (cases "is_exited (state (metas w2 r0))")
    case True
    then obtain s' e' c' g' where e: "state (metas w2 r0) = Exited s' e' c' g'"
      by (cases "state (metas w2 r0)") simp_all
    show ?thesis
      using stop_eq e k ef True q by (intro exI [of _ w2] exI [of _ "[]"]) simp
  next
    case False
    with st run have r: "state (metas w2 r0) = Running p0 t0" by simp
    let ?w3 = "w2 \<lparr> effects := effects w2 @ [Kill p0 ''SIGKILL''] \<rparr>"
    have "quiet w ?w3"
      by (rule quiet_trans [OF q quiet_effects_update])
    then show ?thesis
      using stop_eq r k ef
      by (intro exI [of _ ?w3] exI [of _ "[Kill p0 ''SIGKILL'']"]) simp
  qed
qed

section \<open>Requests that create fails\<close>

text \<open>
  Claim C5, as the spec states it, has the create operation fail when both the raw
  configuration text and the structured configuration are absent. \<open>create\<close> makes no
  such check: handed an argument with neither field it renders the empty configuration
  with \<open>generateToml\<close>, and on a host where the binary resolves it makes the working
  directory, writes the file and spawns the process.
\<close>

theorem create_without_configuration_counterexample:
  "in_configToml (input0 \<lparr> in_configToml := None \<rparr>) = None
   \<and> in_config (input0 \<lparr> in_configToml := None \<rparr>) = None
   \<and> fst (create host0 (input0 \<lparr> in_configToml := None \<rparr>)
            (new_FrpsManager ''/rt'' 1000 [calm, calm, calm])) = Returned 1
   \<and> state (metas (snd (create host0 (input0 \<lparr> in_configToml := None \<rparr>)
            (new_FrpsManager ''/rt'' 1000 [calm, calm, calm]))) 1) = Running 4242 1000
   \<and> effects (snd (create host0 (input0 \<lparr> in_configToml := None \<rparr>)
            (new_FrpsManager ''/rt'' 1000 [calm, calm, calm])))
       = [Mkdir ''/rt/frps-a'',
          WriteFile ''/rt/frps-a/frps.toml'' [LF],
          Spawn [''frps'', ''-c'', ''/rt/frps-a/frps.toml''] ''/rt/frps-a'']"
  by (simp add: create_def host0_def input0_def new_FrpsManager_def calm_def
      andThen_def awaited_def ret_def throw_def perform_def assertBinaryExists_def
      replace_existing_def make_workDir_def write_config_def has_separator_def
      create_id_def create_binaryPath_def create_workDir_def create_configPath_def
      create_configToml_def
      resume_def spawn_and_register_def create_args_def new_RingBuffer_def Let_def
      del: One_nat_def)

lemma create_configToml_default:
  "in_configToml input = None \<Longrightarrow> in_config input = None \<Longrightarrow>
     create_configToml h input = generateToml h (JObj [])"
  by (simp add: create_configToml_def)

text \<open>
  Claim C5, amended. The check is the one of \<open>validateCreateBody\<close>, which the server
  runs on the body of \<^verbatim>\<open>POST /frps\<close> before it calls \<open>create\<close>. A request whose body
  has neither \<open>configToml\<close> nor \<open>config\<close> (absent, or \<open>config\<close> null) fails there with a
  validation error (\<open>HttpError 400\<close>), \<open>create\<close> is not called, and the whole state is
  as before: no host call was issued, so no working directory was created and no
  process spawned.
\<close>

theorem post_frps_without_configuration:
  assumes "get_prop body ''configToml'' = None"
    and "get_prop body ''config'' = None \<or> get_prop body ''config'' = Some JNull"
  shows "\<exists>msg. validateCreateBody (coerce_number h) body = Inl (HttpError 400 msg)
           \<and> post_frps h body w = (Threw (HttpError 400 msg), w)"
proof -
  have "\<exists>msg. validateCreateBody (coerce_number h) body = Inl (HttpError 400 msg)"
    using assms by (auto simp: validateCreateBody_def)
  then show ?thesis by (auto simp: post_frps_def throw_def)
qed

theorem post_frps_without_configuration_witness:
  "get_prop (JObj [(''id'', JStr ''b''), (''logLines'', JNum (Num 50))]) ''configToml'' = None
   \<and> get_prop (JObj [(''id'', JStr ''b''), (''logLines'', JNum (Num 50))]) ''config'' = None
   \<and> post_frps host0 (JObj [(''id'', JStr ''b''), (''logLines'', JNum (Num 50))]) world0
       = (Threw (HttpError 400 ''either configToml or config must be provided''), world0)"
proof -
  let ?body = "JObj [(''id'', JStr ''b''), (''logLines'', JNum (Num 50))]"
  have a: "get_prop ?body ''configToml'' = None" by simp
  have b: "get_prop ?body ''config'' = None \<or> get_prop ?body ''config'' = Some JNull" by simp
  have v: "validateCreateBody (coerce_number host0) ?body
      = Inl (HttpError 400 ''either configToml or config must be provided'')"
    by (simp add: validateCreateBody_def)
  show ?thesis
    using post_frps_without_configuration [OF a b, of host0 world0] v by auto
qed

subsection \<open>A binary that does not resolve\<close>

fun is_kill :: "effect \<Rightarrow> bool" where
  "is_kill (Kill p s) = True"
| "is_kill e = False"

lemma stop_forced:
  assumes "20 + k \<le> length (future w)"
  shows "\<exists>b w' ks. stop i (Some \<lparr> force = Some True, timeoutMs = Some (Num 1000) \<rparr>) w
                      = (Returned b, w')
           \<and> k \<le> length (future w') \<and> effects w' = effects w @ ks
           \<and> list_all is_kill ks \<and> quiet w w'"
proof (cases "map_of (processes w) i")
  case None
  then have "stop i (Some \<lparr> force = Some True, timeoutMs = Some (Num 1000) \<rparr>) w
      = (Returned False, w)"
    by (simp add: stop_def)
  then show ?thesis
    using assms quiet_refl [of w] by (intro exI [of _ False] exI [of _ w] exI [of _ "[]"]) simp
next
  case (Some r0)
  show ?thesis
  proof (cases "state (metas w r0)")
    case (Exited s e c g)
    with Some have "stop i (Some \<lparr> force = Some True, timeoutMs = Some (Num 1000) \<rparr>) w
        = (Returned True, w)"
      by (simp add: stop_def)
    then show ?thesis
      using assms quiet_refl [of w] by (intro exI [of _ True] exI [of _ w] exI [of _ "[]"]) simp
  next
    case (Running p0 t0)
    from stop_running [OF Some Running assms]
    obtain w' ks where s: "stop i (Some \<lparr> force = Some True, timeoutMs = Some (Num 1000) \<rparr>) w
                    = (Returned True, w')"
      and k: "k \<le> length (future w')"
      and e: "effects w' = effects w @ Kill p0 ''SIGTERM'' # ks"
      and ks: "ks = [] \<or> ks = [Kill p0 ''SIGKILL'']"
      and q: "quiet w w'"
      by blast
    from ks have "list_all is_kill (Kill p0 ''SIGTERM'' # ks)" by auto
    with s k e q show ?thesis
      by (intro exI [of _ True] exI [of _ w'] exI [of _ "Kill p0 ''SIGTERM'' # ks"]) simp
  qed
qed

lemma replace_existing_outcome:
  assumes "map_of (processes w) i = None \<or> in_replaceIfExists input = Some True"
    and "21 + k \<le> length (future w)"
  shows "\<exists>b w' ks. replace_existing input i w = (Returned b, w')
           \<and> k \<le> length (future w') \<and> effects w' = effects w @ ks
           \<and> list_all is_kill ks \<and> (map_of (processes w) i = None \<longrightarrow> ks = [])
           \<and> quiet w w'"
proof (cases "map_of (processes w) i")
  case None
  then have "replace_existing input i w = (Returned False, w)"
    by (simp add: replace_existing_def ret_def)
  then show ?thesis
    using assms quiet_refl [of w] by (intro exI [of _ False] exI [of _ w] exI [of _ "[]"]) simp
next
  case (Some r0)
  with assms(1) have r: "in_replaceIfExists input = Some True" by simp
  from assms(2) have "20 + Suc k \<le> length (future w)" by simp
  from stop_forced [OF this, of i]
  obtain b w1 ks where s: "stop i (Some \<lparr> force = Some True, timeoutMs = Some (Num 1000) \<rparr>) w
                      = (Returned b, w1)"
    and k: "Suc k \<le> length (future w1)" and e: "effects w1 = effects w @ ks"
    and ks: "list_all is_kill ks" and q: "quiet w w1"
    by blast
  from k have ne: "future w1 \<noteq> []" by auto
  from awaited_result
    [of "stop i (Some \<lparr> force = Some True, timeoutMs = Some (Num 1000) \<rparr>)" w, OF s _ ne]
  obtain w2 where a: "awaited (stop i (Some \<lparr> force = Some True, timeoutMs = Some (Num 1000) \<rparr>)) w
                      = (Returned b, w2)"
    and q2: "quiet w1 w2" and e2: "effects w2 = effects w1"
    and f2: "Suc (length (future w2)) = length (future w1)"
    by auto
  have "replace_existing input i w = (Returned b, w2)"
    using Some r a by (simp add: replace_existing_def)
  moreover have "k \<le> length (future w2)" using k f2 by simp
  moreover have "effects w2 = effects w @ ks" using e e2 by simp
  moreover have "quiet w w2" by (rule quiet_trans [OF q q2])
  ultimately show ?thesis
    using ks Some by (intro exI [of _ b] exI [of _ w2] exI [of _ ks]) simp
qed

lemma assertBinaryExists_unresolved:
  assumes "if has_separator bin then \<not> stat_ok h bin else which h bin = None"
    and "2 \<le> length (future w)"
  shows "\<exists>w'. awaited (assertBinaryExists h bin) w
                 = (Threw (HttpError 400
                      ((if has_separator bin then ''binary not found at path: ''
                        else ''binary not found in PATH: '') @ bin)), w')
           \<and> quiet w w' \<and> effects w' = effects w"
proof (cases "has_separator bin")
  case True
  let ?e = "HttpError 400 (''binary not found at path: '' @ bin)"
  have t: "(throw ?e :: unit task) w = (Threw ?e, w)" by (simp add: throw_def)
  from assms(2) have ne: "future w \<noteq> []" by auto
  from awaited_result [of "throw ?e" w, OF t _ ne]
  obtain w1 where a1: "awaited (throw ?e :: unit task) w = (Threw ?e, w1)"
    and q1: "quiet w w1" and e1: "effects w1 = effects w"
    and f1: "Suc (length (future w1)) = length (future w)"
    by auto
  have a: "assertBinaryExists h bin w = (Threw ?e, w1)"
    using True assms(1) a1 by (simp add: assertBinaryExists_def)
  from f1 assms(2) have ne1: "future w1 \<noteq> []" by auto
  from awaited_result [of "assertBinaryExists h bin" w, OF a _ ne1]
  obtain w2 where "awaited (assertBinaryExists h bin) w = (Threw ?e, w2)"
    and "quiet w1 w2" and "effects w2 = effects w1"
    by auto
  then show ?thesis
    using True q1 e1 quiet_trans [of w w1 w2] by (intro exI [of _ w2]) simp
next
  case False
  let ?e = "HttpError 400 (''binary not found in PATH: '' @ bin)"
  have a: "assertBinaryExists h bin w = (Threw ?e, w)"
    using False assms(1) by (simp add: assertBinaryExists_def throw_def)
  from assms(2) have ne: "future w \<noteq> []" by auto
  from awaited_result [of "assertBinaryExists h bin" w, OF a _ ne]
  obtain w2 where "awaited (assertBinaryExists h bin) w = (Threw ?e, w2)"
    and "quiet w w2" and "effects w2 = effects w"
    by auto
  then show ?thesis using False by (intro exI [of _ w2]) simp
qed

text \<open>
  Claim C6, as the spec states it: every create request whose binary does not resolve
  fails with the binary-not-found error. It fails for a request whose id is already
  registered and that does not ask for replacement: the id is checked first, and the
  request fails with the conflict error (status 409) instead.
\<close>

theorem create_unresolved_binary_conflict_counterexample:
  "\<not> has_separator ''nope'' \<and> which host0 ''nope'' = None
   \<and> create host0 (input0 \<lparr> in_binaryPath := Some ''nope'' \<rparr>) world0
       = (Threw (HttpError 409 ''frps with id a already exists''), world0)"
  by (simp add: has_separator_def host0_def input0_def create_def create_id_def
      replace_existing_def andThen_def throw_def world0_facts Let_def)

text \<open>
  Claim C6, amended. A create request whose binary does not resolve (a locator with a
  path separator that \<open>stat\<close> does not find, or a bare name that \<open>which\<close> does not find)
  fails: with the conflict error and the state unchanged when its id is registered and
  replacement is not requested; otherwise with the binary-not-found error
  (\<open>HttpError 400\<close>). In both cases no working directory and no configuration file is
  created and no process is spawned: the only host calls issued are the signals of the
  forced stop of a replaced record, and none at all when the id was not registered. The
  registry, the records but for their exit states, and the buffers are as before.
\<close>

theorem create_unresolved_binary:
  assumes "if has_separator (create_binaryPath input)
           then \<not> stat_ok h (create_binaryPath input)
           else which h (create_binaryPath input) = None"
    and "23 \<le> length (future w)"
  shows "(map_of (processes w) (create_id h input) \<noteq> None
            \<and> in_replaceIfExists input \<noteq> Some True
          \<longrightarrow> create h input w
                = (Threw (HttpError 409
                     (''frps with id '' @ create_id h input @ '' already exists'')), w))
       \<and> (map_of (processes w) (create_id h input) = None
            \<or> in_replaceIfExists input = Some True
          \<longrightarrow> (\<exists>w' ks.
                 create h input w
                   = (Threw (HttpError 400
                        ((if has_separator (create_binaryPath input)
                          then ''binary not found at path: ''
                          else ''binary not found in PATH: '') @ create_binaryPath input)),
                      w')
                 \<and> effects w' = effects w @ ks \<and> list_all is_kill ks
                 \<and> (map_of (processes w) (create_id h input) = None \<longrightarrow> ks = [])
                 \<and> quiet w w'))"
proof (intro conjI impI)
  assume "map_of (processes w) (create_id h input) \<noteq> None
            \<and> in_replaceIfExists input \<noteq> Some True"
  then show "create h input w
                = (Threw (HttpError 409
                     (''frps with id '' @ create_id h input @ '' already exists'')), w)"
    by (simp add: create_def Let_def andThen_def replace_existing_def throw_def)
next
  let ?i = "create_id h input" and ?bin = "create_binaryPath input"
  let ?e = "HttpError 400 ((if has_separator ?bin then ''binary not found at path: ''
                          else ''binary not found in PATH: '') @ ?bin)"
  assume free: "map_of (processes w) ?i = None \<or> in_replaceIfExists input = Some True"
  from assms(2) have "21 + 2 \<le> length (future w)" by simp
  from replace_existing_outcome [OF free this]
  obtain b w1 ks where r: "replace_existing input ?i w = (Returned b, w1)"
    and f1: "2 \<le> length (future w1)" and e1: "effects w1 = effects w @ ks"
    and ks: "list_all is_kill ks" "map_of (processes w) ?i = None \<longrightarrow> ks = []"
    and q1: "quiet w w1"
    by auto
  from assertBinaryExists_unresolved [OF assms(1) f1]
  obtain w2 where a: "awaited (assertBinaryExists h ?bin) w1 = (Threw ?e, w2)"
    and q2: "quiet w1 w2" and e2: "effects w2 = effects w1"
    by auto
  have "create h input w = (Threw ?e, w2)"
    using r a by (simp add: create_def Let_def andThen_def)
  moreover have "quiet w w2" by (rule quiet_trans [OF q1 q2])
  ultimately show "\<exists>w' ks. create h input w = (Threw ?e, w')
                 \<and> effects w' = effects w @ ks \<and> list_all is_kill ks
                 \<and> (map_of (processes w) ?i = None \<longrightarrow> ks = [])
                 \<and> quiet w w'"
    using e1 e2 ks by (intro exI [of _ w2] exI [of _ ks]) simp
qed

theorem create_unresolved_binary_witness:
  "has_separator ''/opt/nope'' \<and> \<not> stat_ok host0 ''/opt/nope''
   \<and> 23 \<le> length (future (world0 \<lparr> future := replicate 23 calm \<rparr>))
   \<and> map_of (processes (world0 \<lparr> future := replicate 23 calm \<rparr>)) ''b'' = None
   \<and> (\<exists>w'. create host0 (input0 \<lparr> in_id := Some ''b'', in_binaryPath := Some ''/opt/nope'' \<rparr>)
               (world0 \<lparr> future := replicate 23 calm \<rparr>)
             = (Threw (HttpError 400 ''binary not found at path: /opt/nope''), w')
           \<and> effects w' = effects world0 \<and> processes w' = processes world0)"
proof -
  let ?input = "input0 \<lparr> in_id := Some ''b'', in_binaryPath := Some ''/opt/nope'' \<rparr>"
  let ?w = "world0 \<lparr> future := replicate 23 calm \<rparr>"
  have b: "create_binaryPath ?input = ''/opt/nope''" and i: "create_id host0 ?input = ''b''"
    by (simp_all add: create_binaryPath_def create_id_def input0_def)
  have s: "has_separator ''/opt/nope''" by (simp add: has_separator_def)
  have n: "\<not> stat_ok host0 ''/opt/nope''" by (simp add: host0_def)
  have h1: "if has_separator (create_binaryPath ?input)
           then \<not> stat_ok host0 (create_binaryPath ?input)
           else which host0 (create_binaryPath ?input) = None"
    using s n by (simp add: b)
  have h2: "23 \<le> length (future ?w)" by simp
  have u: "map_of (processes ?w) ''b'' = None" by (simp add: world0_facts)
  from create_unresolved_binary [OF h1 h2] u
  obtain w' where "create host0 ?input ?w
             = (Threw (HttpError 400 ''binary not found at path: /opt/nope''), w')"
    and "effects w' = effects ?w" and "quiet ?w w'"
    by (auto simp: b i s)
  then have "create host0 ?input ?w
             = (Threw (HttpError 400 ''binary not found at path: /opt/nope''), w')
           \<and> effects w' = effects world0 \<and> processes w' = processes world0"
    by (simp add: quiet_def)
  then show ?thesis using s n h2 u by blast
qed

section \<open>list and get\<close>

lemma copy_all_spec:
  assumes "\<forall>r \<in> set rs. r < next_ref w" and "copy_all rs w = (cs, w')"
  shows "(\<forall>c \<in> set cs. next_ref w \<le> c)
       \<and> next_ref w \<le> next_ref w'
       \<and> processes w' = processes w \<and> buffers w' = buffers w
       \<and> (\<forall>r < next_ref w. metas w' r = metas w r)
       \<and> map (metas w') cs = map (metas w) rs"
  using assms
proof (induction rs arbitrary: w cs w')
  case Nil
  then show ?case by simp
next
  case (Cons p ps)
  let ?c = "next_ref w"
  let ?w1 = "w \<lparr> metas := (metas w)(?c := metas w p), next_ref := ?c + 1 \<rparr>"
  obtain cs2 w2 where c: "copy_all ps ?w1 = (cs2, w2)" by (cases "copy_all ps ?w1")
  from Cons.prems(2) c have cs: "cs = ?c # cs2" and w': "w' = w2"
    by (simp_all add: Let_def)
  from Cons.prems(1) have lt: "\<forall>r \<in> set ps. r < next_ref ?w1" and p: "p < ?c" by auto
  have n1: "next_ref ?w1 = Suc ?c" by simp
  from Cons.IH [OF lt c]
  have fr: "\<forall>c \<in> set cs2. next_ref ?w1 \<le> c" and n: "next_ref ?w1 \<le> next_ref w2"
    and pr: "processes w2 = processes ?w1" and bu: "buffers w2 = buffers ?w1"
    and m: "\<forall>r < next_ref ?w1. metas w2 r = metas ?w1 r"
    and mp: "map (metas w2) cs2 = map (metas ?w1) ps"
    by blast+
  have m1: "\<forall>r < ?c. metas w2 r = metas w r" using m by simp
  have mc: "metas w2 ?c = metas w p" using m by simp
  have "map (metas ?w1) ps = map (metas w) ps"
    using Cons.prems(1) by (intro map_cong) auto
  with mp have mp': "map (metas w2) cs2 = map (metas w) ps" by simp
  have fr': "\<forall>c \<in> set (?c # cs2). ?c \<le> c" using fr by auto
  have n': "?c \<le> next_ref w2" using n by simp
  have pr': "processes w2 = processes w" using pr by simp
  have bu': "buffers w2 = buffers w" using bu by simp
  show ?case
    unfolding cs w' using fr' n' pr' bu' m1 mc mp' by simp
qed

text \<open>
  Claim C1, as the spec states it, makes what \<open>list\<close> and \<open>get\<close> return independent of
  the registry in every part. \<open>get\<close> returns the registered record object itself: a
  state assigned through the reference is the state the registry holds. \<open>list\<close> copies
  the fields, not what they refer to: a line pushed into the log buffer of a copy is a
  line in the log buffer of the registered record.
\<close>

lemma take_one_replicate_update:
  "0 < n \<Longrightarrow> take 1 ((replicate n x)[0 := y]) = [y]"
  by (cases n) simp_all

lemma world0_buffer:
  "buffers world0 0
     = \<lparr> capacity = 1000, buffer = replicate 1000 None, index = 0, filled = False \<rparr>"
  unfolding world0_def
  by (simp add: create_def host0_def input0_def new_FrpsManager_def calm_def
      andThen_def awaited_def ret_def throw_def perform_def assertBinaryExists_def
      replace_existing_def make_workDir_def write_config_def has_separator_def
      create_id_def create_binaryPath_def create_workDir_def create_configPath_def
      create_configToml_def
      resume_def spawn_and_register_def create_args_def new_RingBuffer_def Let_def)

theorem snapshots_share_state_counterexample:
  "get_meta ''a'' world0 = Some 1
   \<and> state (metas world0 1) = Running 4242 1000
   \<and> state (metas (assign_meta 1 ((metas world0 1) \<lparr> state := Exited 0 0 None None \<rparr>)
                      world0) 1)
       = Exited 0 0 None None
   \<and> fst (list_metas world0) = [2]
   \<and> toArray (buffers (snd (list_metas world0))
                (logBuffer (metas (snd (list_metas world0)) 1))) None = []
   \<and> toArray (buffers (push_log 2 ''x'' (snd (list_metas world0)))
                (logBuffer (metas (push_log 2 ''x'' (snd (list_metas world0))) 1))) None
       = [Some ''x'']"
  by (simp add: get_meta_def assign_meta_def list_metas_def push_log_def Let_def
      world0_facts world0_buffer toArray_def push_def array_set_def
      take_one_replicate_update del: One_nat_def)

text \<open>
  Claim C1, amended. \<open>list\<close> returns, for every record of the registry and in its
  order, a new object with the same field values, and building these objects does not
  change the registry. Assigning fields of a returned object, whatever the new values,
  never changes the registry: its ids, its record objects and the contents of their log
  buffers stay as they were. (The log buffer a returned object refers to is the one of
  the registered record.)
\<close>

theorem list_metas_copies:
  assumes "\<forall>(i, r) \<in> set (processes w). r < next_ref w"
    and "list_metas w = (cs, w')"
  shows "registry w' = registry w
       \<and> map (metas w') cs = map (\<lambda>(i, r). metas w r) (processes w)
       \<and> (\<forall>c \<in> set cs. c \<notin> snd ` set (processes w)
              \<and> (\<forall>m. registry (assign_meta c m w') = registry w))"
proof -
  let ?rs = "map snd (processes w)"
  from assms(1) have lt: "\<forall>r \<in> set ?rs. r < next_ref w" by auto
  from assms(2) have ca: "copy_all ?rs w = (cs, w')" by (simp add: list_metas_def)
  from copy_all_spec [OF lt ca]
  have cs: "\<forall>c \<in> set cs. next_ref w \<le> c"
    and pr: "processes w' = processes w" and bu: "buffers w' = buffers w"
    and m: "\<forall>r < next_ref w. metas w' r = metas w r"
    and mp: "map (metas w') cs = map (metas w) ?rs"
    by blast+
  have reg: "registry w' = registry w"
    unfolding registry_def pr using assms(1) m bu by (intro map_cong) auto
  have copies: "map (metas w') cs = map (\<lambda>(i, r). metas w r) (processes w)"
    using mp by (simp add: comp_def case_prod_unfold)
  have fresh: "c \<notin> snd ` set (processes w) \<and> registry (assign_meta c x w') = registry w"
    if "c \<in> set cs" for c x
  proof -
    from that cs have ge: "next_ref w \<le> c" by simp
    with assms(1) have nin: "c \<notin> snd ` set (processes w)" by fastforce
    have "registry (assign_meta c x w') = registry w'"
      unfolding registry_def assign_meta_def using nin pr
      by (intro map_cong) (auto simp: image_iff)
    with reg nin show ?thesis by simp
  qed
  from reg copies fresh show ?thesis by blast
qed

theorem list_metas_copies_witness:
  "processes world0 = [(''a'', 1)] \<and> next_ref world0 = 2
   \<and> fst (list_metas world0) = [2]
   \<and> registry (assign_meta 2 blank_meta (snd (list_metas world0))) = registry world0"
proof -
  have wf: "\<forall>(i, r) \<in> set (processes world0). r < next_ref world0"
    by (simp add: world0_facts)
  have f: "fst (list_metas world0) = [2]"
    by (simp add: list_metas_def world0_facts Let_def)
  then have l: "list_metas world0 = ([2], snd (list_metas world0))"
    by (simp add: prod_eq_iff)
  show ?thesis
    using f list_metas_copies [OF wf l] by (simp add: world0_facts)
qed

section \<open>The state of a record over time\<close>

text \<open>
  What happens to a supervisor: a create request or a stop request, each with the
  suspensions it will meet, a list or get request, or time passing between requests
  with the exit notifications it delivers.
\<close>

datatype event =
    CreateReq host create_input "tick list"
  | StopReq string "stop_options option" "tick list"
  | ListReq
  | GetReq string
  | Elapse tick

fun apply_event :: "event \<Rightarrow> world \<Rightarrow> world" where
  "apply_event (CreateReq h input fut) w = snd (create h input (w \<lparr> future := fut \<rparr>))"
| "apply_event (StopReq i options fut) w = snd (stop i options (w \<lparr> future := fut \<rparr>))"
| "apply_event ListReq w = snd (list_metas w)"
| "apply_event (GetReq i) w = w"
| "apply_event (Elapse t) w = resume 0 t w"

definition run :: "event list \<Rightarrow> world \<Rightarrow> world" where
  "run evs w = fold apply_event evs w"
























text \<open>
  Claim C8 makes the \<open>Exited\<close> state of a record permanent: further exit notifications
  must not corrupt it. The exit callback of a child looks up the record registered under
  its id when it runs, and assigns that record, whichever child it belongs to. Here \<open>a\<close>
  is replaced while its first child (child 0, started at 1000) has not yet exited: the
  forced stop times out and sends SIGKILL, and the new record (reference 3) is \<open>Running\<close>
  with its own child (child 1, started at 2050).

  \<^item> The new child exits first, with code 1, and the new record is \<open>Exited\<close> with start
    time 2050 and exit code 1. Then the exit of the replaced child is notified: the
    same record is assigned again and holds the start time 1000 of the replaced child,
    a later exit time and no exit code.
  \<^item> When instead the exit of the replaced child comes while the new child is running,
    the new record is \<open>Exited\<close> with the start time of the replaced child, and the
    replaced record (reference 1) is still \<open>Running\<close>.
\<close>

theorem exit_callback_assigns_registered_record:
  "state (metas (run [CreateReq host0 (input0 \<lparr> in_replaceIfExists := Some True \<rparr>)
                        [\<lparr> elapsed = 1000, exits = [] \<rparr>, calm, calm, calm, calm]] world0) 3)
     = Running 4242 2050
   \<and> state (metas (run [CreateReq host0 (input0 \<lparr> in_replaceIfExists := Some True \<rparr>)
                        [\<lparr> elapsed = 1000, exits = [] \<rparr>, calm, calm, calm, calm],
                      Elapse \<lparr> elapsed = 10, exits = [(1, Some 1)] \<rparr>] world0) 3)
     = Exited 2050 2060 (Some 1) None
   \<and> state (metas (run [CreateReq host0 (input0 \<lparr> in_replaceIfExists := Some True \<rparr>)
                        [\<lparr> elapsed = 1000, exits = [] \<rparr>, calm, calm, calm, calm],
                      Elapse \<lparr> elapsed = 10, exits = [(1, Some 1)] \<rparr>,
                      Elapse \<lparr> elapsed = 5, exits = [(0, None)] \<rparr>] world0) 3)
     = Exited 1000 2065 None None
   \<and> state (metas (run [CreateReq host0 (input0 \<lparr> in_replaceIfExists := Some True \<rparr>)
                        [\<lparr> elapsed = 1000, exits = [] \<rparr>, calm, calm, calm, calm],
                      Elapse \<lparr> elapsed = 5, exits = [(0, None)] \<rparr>] world0) 3)
     = Exited 1000 2055 None None
   \<and> state (metas (run [CreateReq host0 (input0 \<lparr> in_replaceIfExists := Some True \<rparr>)
                        [\<lparr> elapsed = 1000, exits = [] \<rparr>, calm, calm, calm, calm],
                      Elapse \<lparr> elapsed = 5, exits = [(0, None)] \<rparr>] world0) 1)
     = Running 4242 1000"
  by (simp add: run_def create_def host0_def input0_def calm_def
      andThen_def awaited_def ret_def throw_def perform_def assertBinaryExists_def
      replace_existing_def make_workDir_def write_config_def has_separator_def
      create_id_def create_binaryPath_def create_workDir_def create_configPath_def
      create_configToml_def stop_def poll.simps fire_exit_def exit_watcher_def
      resume_def spawn_and_register_def create_args_def new_RingBuffer_def Let_def
      world0_facts del: One_nat_def)

section \<open>create replacing a running record\<close>











text \<open>
  The spawn comes before the constructor of the ring buffer. With \<^verbatim>\<open>NaN\<close> for the number
  of log lines the record \<open>a\<close> is stopped and a new process is spawned, then the
  constructor throws: \<open>create\<close> fails, and the id still names the replaced record.
\<close>

lemma create_replace_NaN_logLines:
  "fst (create host0 (input0 \<lparr> in_logLines := Some NaN, in_replaceIfExists := Some True \<rparr>)
         (world0 \<lparr> future := [\<lparr> elapsed = 3, exits = [(0, Some 143)] \<rparr>,
                               calm, calm, calm, calm] \<rparr>)) = Threw RangeError"
  "processes (snd (create host0
         (input0 \<lparr> in_logLines := Some NaN, in_replaceIfExists := Some True \<rparr>)
         (world0 \<lparr> future := [\<lparr> elapsed = 3, exits = [(0, Some 143)] \<rparr>,
                               calm, calm, calm, calm] \<rparr>))) = [(''a'', 1)]"
  "effects (snd (create host0
         (input0 \<lparr> in_logLines := Some NaN, in_replaceIfExists := Some True \<rparr>)
         (world0 \<lparr> future := [\<lparr> elapsed = 3, exits = [(0, Some 143)] \<rparr>,
                               calm, calm, calm, calm] \<rparr>)))
     = effects world0
       @ [Kill 4242 ''SIGTERM'',
          Mkdir ''/rt/frps-a'',
          WriteFile ''/rt/frps-a/frps.toml'' ''bindPort = 7000'',
          Spawn [''frps'', ''-c'', ''/rt/frps-a/frps.toml''] ''/rt/frps-a'']"
  by (simp_all add: create_def host0_def input0_def calm_def
      andThen_def awaited_def ret_def throw_def perform_def assertBinaryExists_def
      replace_existing_def make_workDir_def write_config_def has_separator_def
      create_id_def create_binaryPath_def create_workDir_def create_configPath_def
      create_configToml_def stop_def poll.simps fire_exit_def exit_watcher_def
      resume_def spawn_and_register_def create_args_def new_RingBuffer_def Let_def
      world0_facts del: One_nat_def)

end
